theory Spec2Isabelle
  imports Main
begin

chapter \<open>The job scrapers: model\<close>

text \<open>
  A shallow embedding of the three scripts of the repository: the two LinkedIn
  scrapers (\<^verbatim>\<open>Linkedin_Large.py\<close>, \<^verbatim>\<open>Linkedin_Small.py\<close>) and the Indeed
  pipeline (\<^verbatim>\<open>Indeed.py\<close>).  Every function keeps the name it has in the source.
  What the browser (Selenium) or the network answers is an input of the model: a
  value for each read, or the fact that the read raised.

  A Python \<^verbatim>\<open>str\<close> is a \<^typ>\<open>string\<close>: one \<^typ>\<open>char\<close> per code point, for the
  code points below 256.
\<close>

section \<open>Python string operations\<close>

definition code :: "char \<Rightarrow> nat" where
  "code c = of_char c"

text \<open>\<^verbatim>\<open>str.isspace\<close> on one character (the code points below 256 that Python
  counts as whitespace).\<close>

definition is_space :: "char \<Rightarrow> bool" where
  "is_space c = ((9 \<le> code c \<and> code c \<le> 13) \<or> (28 \<le> code c \<and> code c \<le> 32)
                 \<or> code c = 133 \<or> code c = 160)"

text \<open>\<^verbatim>\<open>s.strip()\<close>.\<close>

definition py_strip :: "string \<Rightarrow> string" where
  "py_strip s = rev (dropWhile is_space (rev (dropWhile is_space s)))"

text \<open>\<^verbatim>\<open>s.lower()\<close>: the capital letters of ASCII and of Latin-1 move by 32.\<close>

definition lower_char :: "char \<Rightarrow> char" where
  "lower_char c =
     (if (65 \<le> code c \<and> code c \<le> 90) \<or> (192 \<le> code c \<and> code c \<le> 222 \<and> code c \<noteq> 215)
      then char_of (code c + 32) else c)"

definition py_lower :: "string \<Rightarrow> string" where
  "py_lower s = map lower_char s"

text \<open>\<^verbatim>\<open>s.isdigit()\<close>: not empty, and every character a digit (Python counts the
  superscripts 1, 2 and 3 of Latin-1 as digits).\<close>

definition is_digit_char :: "char \<Rightarrow> bool" where
  "is_digit_char c = ((48 \<le> code c \<and> code c \<le> 57) \<or> code c = 178 \<or> code c = 179 \<or> code c = 185)"

definition py_isdigit :: "string \<Rightarrow> bool" where
  "py_isdigit s = (s \<noteq> [] \<and> list_all is_digit_char s)"

text \<open>\<^verbatim>\<open>s.startswith(p)\<close> and \<^verbatim>\<open>needle in s\<close>.\<close>

fun starts_with :: "string \<Rightarrow> string \<Rightarrow> bool" where
  "starts_with s [] = True"
| "starts_with [] (p # ps) = False"
| "starts_with (c # cs) (p # ps) = (c = p \<and> starts_with cs ps)"

fun contains :: "string \<Rightarrow> string \<Rightarrow> bool" where
  "contains [] needle = (needle = [])"
| "contains (c # cs) needle = (starts_with (c # cs) needle \<or> contains cs needle)"

section \<open>Result cards and the page signature (Linkedin\_Large.py)\<close>

text \<open>A read of the browser either raises or returns.\<close>

datatype 'a outcome = Raised | Returned 'a

text \<open>A result card (one \<^verbatim>\<open>li\<close> element), as far as the scraper reads it: its
  text and the two attributes that can carry the listing id.\<close>

record card =
  card_text :: "string outcome"
  occludable_job_id :: "string option outcome"
  data_job_id :: "string option outcome"

text \<open>
\<^verbatim>\<open>
    def _get_listing_anchor_id(self, card):
        for attr in ("data-occludable-job-id", "data-job-id"):
            try:
                v = card.get_attribute(attr)
                if v and v.strip().isdigit():
                    return v.strip()
            except:
                pass
        return None
\<close>\<close>

definition attr_id :: "string option outcome \<Rightarrow> string option" where
  "attr_id r =
     (case r of
        Raised \<Rightarrow> None
      | Returned None \<Rightarrow> None
      | Returned (Some v) \<Rightarrow> (if v \<noteq> [] \<and> py_isdigit (py_strip v) then Some (py_strip v) else None))"

definition get_listing_anchor_id :: "card \<Rightarrow> string option" where
  "get_listing_anchor_id c =
     (case attr_id (occludable_job_id c) of
        Some v \<Rightarrow> Some v
      | None \<Rightarrow> attr_id (data_job_id c))"

text \<open>
\<^verbatim>\<open>
    def _is_promoted_card(self, card):
        try:
            t = (card.text or "").lower()
            return ("promoted" in t) or ("sponsored" in t)
        except:
            return False
\<close>\<close>

definition is_promoted_card :: "card \<Rightarrow> bool" where
  "is_promoted_card c =
     (case card_text c of
        Raised \<Rightarrow> False
      | Returned t \<Rightarrow> contains (py_lower t) ''promoted'' \<or> contains (py_lower t) ''sponsored'')"

text \<open>
\<^verbatim>\<open>
    def _page_signature(self, n=10):
        cards = self._find_job_cards()
        ids = []
        for c in cards:
            if self._is_promoted_card(c):
                continue
            jid = self._get_listing_anchor_id(c)
            if jid:
                ids.append(jid)
            if len(ids) >= n:
                break
        if not ids:
            for c in cards:
                jid = self._get_listing_anchor_id(c)
                if jid:
                    ids.append(jid)
                if len(ids) >= n:
                    break
        return tuple(ids)
\<close>
  The two loops are one function: \<open>skip\<close> says whether promoted cards are
  passed over.\<close>

fun collect_ids :: "nat \<Rightarrow> bool \<Rightarrow> card list \<Rightarrow> string list \<Rightarrow> string list" where
  "collect_ids n skip [] ids = ids"
| "collect_ids n skip (c # cs) ids =
     (if skip \<and> is_promoted_card c then collect_ids n skip cs ids
      else
        let ids' = (case get_listing_anchor_id c of
                      Some jid \<Rightarrow> (if jid \<noteq> [] then ids @ [jid] else ids)
                    | None \<Rightarrow> ids)
        in if length ids' \<ge> n then ids' else collect_ids n skip cs ids')"

definition page_signature :: "nat \<Rightarrow> card list \<Rightarrow> string list" where
  "page_signature n cards =
     (let ids = collect_ids n True cards []
      in if ids = [] then collect_ids n False cards [] else ids)"

text \<open>The ids of a list of cards, in rendered order (used to state what the
  signature is).\<close>

definition anchor_ids :: "card list \<Rightarrow> string list" where
  "anchor_ids cards = List.map_filter get_listing_anchor_id cards"

definition non_promoted :: "card list \<Rightarrow> card list" where
  "non_promoted cards = filter (\<lambda>c. \<not> is_promoted_card c) cards"

section \<open>The library functions the URL helpers call: urllib.parse\<close>

text \<open>
  The scrapers build their URLs with \<^verbatim>\<open>urlsplit\<close>, \<^verbatim>\<open>parse_qsl\<close>, \<^verbatim>\<open>parse_qs\<close>,
  \<^verbatim>\<open>urlencode\<close> and \<^verbatim>\<open>urlunsplit\<close> of the standard library.  They are modelled here
  after \<^verbatim>\<open>Lib/urllib/parse.py\<close> of CPython 3.11, for \<^verbatim>\<open>str\<close> arguments.  Two parts of
  the library are not modelled, and the model says so by returning \<open>Unmodelled\<close>
  instead of a value:
  \<^item> UTF-8: \<^verbatim>\<open>quote\<close> of a character outside ASCII, and \<^verbatim>\<open>unquote\<close> of an escape
    \<^verbatim>\<open>%XX\<close> with \<^verbatim>\<open>XX\<close> above \<^verbatim>\<open>7F\<close>;
  \<^item> the checks of a host that is outside ASCII (NFKC normalisation) or written in
    brackets without the \<^verbatim>\<open>v\<close> of an IPvFuture address (the \<^verbatim>\<open>ipaddress\<close> module).
  \<open>ValueError\<close> is the exception \<^verbatim>\<open>urlsplit\<close> raises.
\<close>

datatype error = ValueError | Unmodelled

definition is_ascii :: "char \<Rightarrow> bool" where
  "is_ascii c = (code c < 128)"

definition ascii_alpha :: "char \<Rightarrow> bool" where
  "ascii_alpha c = ((65 \<le> code c \<and> code c \<le> 90) \<or> (97 \<le> code c \<and> code c \<le> 122))"

definition ascii_digit :: "char \<Rightarrow> bool" where
  "ascii_digit c = (48 \<le> code c \<and> code c \<le> 57)"

definition scheme_char :: "char \<Rightarrow> bool" where
  "scheme_char c = (ascii_alpha c \<or> ascii_digit c \<or> c = CHR ''+'' \<or> c = CHR ''-'' \<or> c = CHR ''.'')"

definition c0_control_or_space :: "char \<Rightarrow> bool" where
  "c0_control_or_space c = (code c \<le> 32)"

definition unsafe_url_byte :: "char \<Rightarrow> bool" where
  "unsafe_url_byte c = (code c = 9 \<or> code c = 13 \<or> code c = 10)"

text \<open>\<^verbatim>\<open>s.partition(c)\<close>: what stands before the first \<open>c\<close>, and what stands after it.\<close>

definition before :: "char \<Rightarrow> string \<Rightarrow> string" where
  "before c s = takeWhile (\<lambda>x. x \<noteq> c) s"

definition after :: "char \<Rightarrow> string \<Rightarrow> string" where
  "after c s = drop 1 (dropWhile (\<lambda>x. x \<noteq> c) s)"

subsection \<open>urlsplit and urlunsplit\<close>

definition uses_netloc :: "string list" where
  "uses_netloc = ['''', ''ftp'', ''http'', ''gopher'', ''nntp'', ''telnet'',
     ''imap'', ''wais'', ''file'', ''mms'', ''https'', ''shttp'',
     ''snews'', ''prospero'', ''rtsp'', ''rtsps'', ''rtspu'', ''rsync'',
     ''svn'', ''svn+ssh'', ''sftp'', ''nfs'', ''git'', ''git+ssh'',
     ''ws'', ''wss'']"

record split_result =
  scheme :: string
  netloc :: string
  path :: string
  query :: string
  fragment :: string

text \<open>
\<^verbatim>\<open>
def _splitnetloc(url, start=0):
    delim = len(url)
    for c in '/?#':
        wdelim = url.find(c, start)
        if wdelim >= 0:
            delim = min(delim, wdelim)
    return url[start:delim], url[delim:]
\<close>
  It is only called with \<^verbatim>\<open>start=2\<close>.\<close>

definition netloc_delim :: "char \<Rightarrow> bool" where
  "netloc_delim c = (c = CHR ''/'' \<or> c = CHR ''?'' \<or> c = CHR ''#'')"

definition splitnetloc :: "string \<Rightarrow> string \<times> string" where
  "splitnetloc url =
     (takeWhile (\<lambda>c. \<not> netloc_delim c) (drop 2 url), dropWhile (\<lambda>c. \<not> netloc_delim c) (drop 2 url))"

text \<open>
\<^verbatim>\<open>
def _check_bracketed_host(hostname):
    if hostname.startswith('v'):
        if not re.match(r"\Av[a-fA-F0-9]+\..+\Z", hostname):
            raise ValueError(f"IPvFuture address is invalid")
    else:
        ip = ipaddress.ip_address(hostname)
        if isinstance(ip, ipaddress.IPv4Address):
            raise ValueError(f"An IPv4 address cannot be in brackets")

def _checknetloc(netloc):
    if not netloc or netloc.isascii():
        return
    ...   # NFKC normalisation of the host, then a ValueError or not
\<close>\<close>

definition hex_digit :: "char \<Rightarrow> bool" where
  "hex_digit c = (ascii_digit c \<or> (65 \<le> code c \<and> code c \<le> 70) \<or> (97 \<le> code c \<and> code c \<le> 102))"

definition check_bracketed_host :: "string \<Rightarrow> error + unit" where
  "check_bracketed_host hostname =
     (if starts_with hostname ''v'' then
        (let digits = takeWhile hex_digit (drop 1 hostname);
             rest = dropWhile hex_digit (drop 1 hostname)
         in if digits \<noteq> [] \<and> starts_with rest ''.'' \<and> drop 1 rest \<noteq> [] then Inr ()
            else Inl ValueError)
      else Inl Unmodelled)"

definition checknetloc :: "string \<Rightarrow> error + unit" where
  "checknetloc nl = (if nl = [] \<or> list_all is_ascii nl then Inr () else Inl Unmodelled)"

text \<open>
\<^verbatim>\<open>
def urlsplit(url, scheme='', allow_fragments=True):
    url = url.lstrip(_WHATWG_C0_CONTROL_OR_SPACE)
    for b in _UNSAFE_URL_BYTES_TO_REMOVE:          # '\t', '\r', '\n'
        url = url.replace(b, "")
    netloc = query = fragment = ''
    i = url.find(':')
    if i > 0 and url[0].isascii() and url[0].isalpha():
        for c in url[:i]:
            if c not in scheme_chars:
                break
        else:
            scheme, url = url[:i].lower(), url[i+1:]
    if url[:2] == '//':
        netloc, url = _splitnetloc(url, 2)
        if (('[' in netloc and ']' not in netloc) or
                (']' in netloc and '[' not in netloc)):
            raise ValueError("Invalid IPv6 URL")
        if '[' in netloc and ']' in netloc:
            bracketed_host = netloc.partition('[')[2].partition(']')[0]
            _check_bracketed_host(bracketed_host)
    if allow_fragments and '#' in url:
        url, fragment = url.split('#', 1)
    if '?' in url:
        url, query = url.split('?', 1)
    _checknetloc(netloc)
    return SplitResult(scheme, netloc, url, query, fragment)
\<close>
  \<open>split_scheme\<close> is the search for the scheme, \<open>check_brackets\<close> the two checks
  of the brackets.\<close>

definition split_scheme :: "string \<Rightarrow> string \<times> string" where
  "split_scheme url =
     (let pre = before CHR '':'' url
      in if CHR '':'' \<in> set url \<and> pre \<noteq> [] \<and> is_ascii (hd url) \<and> ascii_alpha (hd url)
            \<and> list_all scheme_char pre
         then (py_lower pre, after CHR '':'' url)
         else ([], url))"

definition check_brackets :: "string \<Rightarrow> error + unit" where
  "check_brackets nl =
     (if (CHR ''['' \<in> set nl \<and> CHR '']'' \<notin> set nl) \<or> (CHR '']'' \<in> set nl \<and> CHR ''['' \<notin> set nl)
      then Inl ValueError
      else if CHR ''['' \<in> set nl \<and> CHR '']'' \<in> set nl
      then check_bracketed_host (before CHR '']'' (after CHR ''['' nl))
      else Inr ())"

definition urlsplit :: "string \<Rightarrow> error + split_result" where
  "urlsplit url0 =
     (let url1 = filter (\<lambda>c. \<not> unsafe_url_byte c) (dropWhile c0_control_or_space url0);
          (sch, url2) = split_scheme url1;
          (nl, url3) = (if starts_with url2 ''//'' then splitnetloc url2 else ([], url2))
      in case (if starts_with url2 ''//'' then check_brackets nl else Inr ()) of
           Inl e \<Rightarrow> Inl e
         | Inr _ \<Rightarrow>
            (let (url4, frag) = (if CHR ''#'' \<in> set url3 then (before CHR ''#'' url3, after CHR ''#'' url3)
                                 else (url3, []));
                 (url5, qry) = (if CHR ''?'' \<in> set url4 then (before CHR ''?'' url4, after CHR ''?'' url4)
                                else (url4, []))
             in case checknetloc nl of
                  Inl e \<Rightarrow> Inl e
                | Inr _ \<Rightarrow> Inr \<lparr>scheme = sch, netloc = nl, path = url5, query = qry, fragment = frag\<rparr>))"

text \<open>
\<^verbatim>\<open>
def urlunsplit(components):
    scheme, netloc, url, query, fragment = components
    if netloc or (scheme and scheme in uses_netloc) or url[:2] == '//':
        if url and url[:1] != '/': url = '/' + url
        url = '//' + (netloc or '') + url
    if scheme:
        url = scheme + ':' + url
    if query:
        url = url + '?' + query
    if fragment:
        url = url + '#' + fragment
    return url
\<close>\<close>

definition urlunsplit :: "split_result \<Rightarrow> string" where
  "urlunsplit p =
     (let url1 = (if netloc p \<noteq> [] \<or> (scheme p \<noteq> [] \<and> scheme p \<in> set uses_netloc)
                     \<or> starts_with (path p) ''//''
                  then ''//'' @ netloc p @
                       (if path p \<noteq> [] \<and> \<not> starts_with (path p) ''/'' then ''/'' @ path p else path p)
                  else path p);
          url2 = (if scheme p \<noteq> [] then scheme p @ '':'' @ url1 else url1);
          url3 = (if query p \<noteq> [] then url2 @ ''?'' @ query p else url2)
      in if fragment p \<noteq> [] then url3 @ ''#'' @ fragment p else url3)"


subsection \<open>Percent-encoding\<close>

text \<open>
\<^verbatim>\<open>
def unquote(string, encoding='utf-8', errors='replace'):
    if '%' not in string:
        return string
    bits = _asciire.split(string)
    res = [bits[0]]
    for i in range(1, len(bits), 2):
        res.append(unquote_to_bytes(bits[i]).decode(encoding, errors))
        res.append(bits[i + 1])
    return ''.join(res)

def unquote_to_bytes(string):
    bits = string.split(b'%')
    res = [bits[0]]
    for item in bits[1:]:
        try:
            res.append(_hextobyte[item[:2]])       # two hexadecimal digits
            res.append(item[2:])
        except KeyError:
            res.append(b'%')
            res.append(item)
    return b''.join(res)

def unquote_plus(string, encoding='utf-8', errors='replace'):
    string = string.replace('+', ' ')
    return unquote(string, encoding, errors)
\<close>
  An escape is a \<^verbatim>\<open>%\<close> and the two characters after it, when both are hexadecimal
  digits; any other \<^verbatim>\<open>%\<close> stays.  A decoded byte below 128 is the character of
  that code; for a byte from 128 on the library decodes UTF-8, which is not
  modelled.\<close>

definition hex_val :: "char \<Rightarrow> nat" where
  "hex_val c =
     (if ascii_digit c then code c - 48
      else if 65 \<le> code c \<and> code c \<le> 70 then code c - 55
      else code c - 87)"

definition hex_char :: "nat \<Rightarrow> char" where
  "hex_char n = (if n < 10 then char_of (48 + n) else char_of (55 + n))"

fun unquote_walk :: "string \<Rightarrow> error + string" where
  "unquote_walk [] = Inr []"
| "unquote_walk (c # cs) =
     (if c = CHR ''%'' \<and> length cs \<ge> 2 \<and> hex_digit (cs ! 0) \<and> hex_digit (cs ! 1) then
        (let b = 16 * hex_val (cs ! 0) + hex_val (cs ! 1)
         in if b \<ge> 128 then Inl Unmodelled
            else case unquote_walk (drop 2 cs) of
                   Inl e \<Rightarrow> Inl e
                 | Inr r \<Rightarrow> Inr (char_of b # r))
      else case unquote_walk cs of
             Inl e \<Rightarrow> Inl e
           | Inr r \<Rightarrow> Inr (c # r))"

definition unquote :: "string \<Rightarrow> error + string" where
  "unquote s = (if CHR ''%'' \<notin> set s then Inr s else unquote_walk s)"

definition unquote_plus :: "string \<Rightarrow> error + string" where
  "unquote_plus s = unquote (map (\<lambda>c. if c = CHR ''+'' then CHR '' '' else c) s)"

text \<open>
\<^verbatim>\<open>
_ALWAYS_SAFE = frozenset(b'ABCDEFGHIJKLMNOPQRSTUVWXYZ'
                         b'abcdefghijklmnopqrstuvwxyz'
                         b'0123456789'
                         b'_.-~')

def quote(string, safe='/', encoding=None, errors=None):
    if not string:
        return string
    string = string.encode('utf-8', 'strict')
    return quote_from_bytes(string, safe)    # chr(b) if b in safe else '%{:02X}'.format(b)

def quote_plus(string, safe='', encoding=None, errors=None):
    if ' ' not in string:
        return quote(string, safe, encoding, errors)
    string = quote(string, safe + ' ', encoding, errors)
    return string.replace(' ', '+')
\<close>
  \<open>quote\<close> is only called with \<^verbatim>\<open>safe\<close> empty or a single space: \<open>space_safe\<close> says
  which.\<close>

definition always_safe :: "char \<Rightarrow> bool" where
  "always_safe c = (ascii_alpha c \<or> ascii_digit c \<or> c = CHR ''_'' \<or> c = CHR ''.''
                    \<or> c = CHR ''-'' \<or> c = CHR ''~'')"

definition quote_char :: "bool \<Rightarrow> char \<Rightarrow> string" where
  "quote_char space_safe c =
     (if always_safe c \<or> (space_safe \<and> c = CHR '' '') then [c]
      else [CHR ''%'', hex_char (code c div 16), hex_char (code c mod 16)])"

definition quote :: "bool \<Rightarrow> string \<Rightarrow> error + string" where
  "quote space_safe s =
     (if s = [] then Inr s
      else if \<not> list_all is_ascii s then Inl Unmodelled
      else Inr (concat (map (quote_char space_safe) s)))"

definition quote_plus :: "string \<Rightarrow> error + string" where
  "quote_plus s =
     (if CHR '' '' \<notin> set s then quote False s
      else case quote True s of
             Inl e \<Rightarrow> Inl e
           | Inr r \<Rightarrow> Inr (map (\<lambda>c. if c = CHR '' '' then CHR ''+'' else c) r))"

subsection \<open>Query strings\<close>

text \<open>\<^verbatim>\<open>s.split(sep)\<close> for a separator of one character.\<close>

fun split_on :: "char \<Rightarrow> string \<Rightarrow> string list" where
  "split_on sep [] = [[]]"
| "split_on sep (c # cs) =
     (if c = sep then [] # split_on sep cs
      else case split_on sep cs of
             [] \<Rightarrow> [[c]]
           | p # ps \<Rightarrow> (c # p) # ps)"

text \<open>
\<^verbatim>\<open>
def parse_qsl(qs, keep_blank_values=False, strict_parsing=False,
              encoding='utf-8', errors='replace', max_num_fields=None, separator='&'):
    if not qs:
        return []
    r = []
    for name_value in qs.split(separator):
        if name_value or strict_parsing:
            name, has_eq, value = name_value.partition(eq)
            if value or keep_blank_values:
                name = _unquote(name)         # unquote_plus
                value = _unquote(value)
                r.append((name, value))
    return r
\<close>\<close>

fun parse_fields :: "bool \<Rightarrow> string list \<Rightarrow> error + (string \<times> string) list" where
  "parse_fields keep_blank_values [] = Inr []"
| "parse_fields keep_blank_values (name_value # rest) =
     (if name_value \<noteq> [] \<and> (after CHR ''='' name_value \<noteq> [] \<or> keep_blank_values) then
        (case unquote_plus (before CHR ''='' name_value) of
           Inl e \<Rightarrow> Inl e
         | Inr name \<Rightarrow>
            (case unquote_plus (after CHR ''='' name_value) of
               Inl e \<Rightarrow> Inl e
             | Inr val \<Rightarrow>
                (case parse_fields keep_blank_values rest of
                   Inl e \<Rightarrow> Inl e
                 | Inr r \<Rightarrow> Inr ((name, val) # r))))
      else parse_fields keep_blank_values rest)"

definition parse_qsl :: "bool \<Rightarrow> string \<Rightarrow> error + (string \<times> string) list" where
  "parse_qsl keep_blank_values qs =
     (if qs = [] then Inr [] else parse_fields keep_blank_values (split_on CHR ''&'' qs))"

text \<open>
\<^verbatim>\<open>
def urlencode(query, doseq=False, safe='', encoding=None, errors=None, quote_via=quote_plus):
    if hasattr(query, "items"):
        query = query.items()
    l = []
    for k, v in query:                        # doseq, the keys and values being str
        k = quote_via(k, safe, encoding, errors)
        v = quote_via(v, safe, encoding, errors)
        l.append(k + '=' + v)
    return '&'.join(l)
\<close>\<close>

fun join :: "string \<Rightarrow> string list \<Rightarrow> string" where
  "join sep [] = []"
| "join sep [x] = x"
| "join sep (x # y # ys) = x @ sep @ join sep (y # ys)"

fun encode_fields :: "(string \<times> string) list \<Rightarrow> error + string list" where
  "encode_fields [] = Inr []"
| "encode_fields ((k, v) # rest) =
     (case quote_plus k of
        Inl e \<Rightarrow> Inl e
      | Inr k' \<Rightarrow>
         (case quote_plus v of
            Inl e \<Rightarrow> Inl e
          | Inr v' \<Rightarrow>
             (case encode_fields rest of
                Inl e \<Rightarrow> Inl e
              | Inr l \<Rightarrow> Inr ((k' @ ''='' @ v') # l))))"

definition urlencode :: "(string \<times> string) list \<Rightarrow> error + string" where
  "urlencode q = (case encode_fields q of Inl e \<Rightarrow> Inl e | Inr l \<Rightarrow> Inr (join ''&'' l))"

subsection \<open>Dictionaries\<close>

text \<open>A \<^verbatim>\<open>dict\<close> keeps its keys in the order of their first insertion; an
  assignment to a key it has replaces the value where the key stands.
  \<open>dict_set d k v\<close> is \<^verbatim>\<open>d[k] = v\<close>, and \<open>dict pairs\<close> is \<^verbatim>\<open>dict(pairs)\<close>.\<close>

fun dict_set :: "('k \<times> 'v) list \<Rightarrow> 'k \<Rightarrow> 'v \<Rightarrow> ('k \<times> 'v) list" where
  "dict_set [] k v = [(k, v)]"
| "dict_set ((k', v') # d) k v =
     (if k' = k then (k', v) # d else (k', v') # dict_set d k v)"

definition dict :: "('k \<times> 'v) list \<Rightarrow> ('k \<times> 'v) list" where
  "dict pairs = foldl (\<lambda>d (k, v). dict_set d k v) [] pairs"

section \<open>URL helpers (Linkedin\_Large.py and Linkedin\_Small.py, the same text in both)\<close>

text \<open>
\<^verbatim>\<open>
    def _normalize_search_url(self, url):
        parts = urlsplit(url)
        q = dict(parse_qsl(parts.query, keep_blank_values=True))

        drop_keys = {
            "currentJobId",
            "originToLandingJobPostings",
            "origin",
            "trackingId",
            "refId",
            "lipi",
        }
        for k in list(q.keys()):
            if k in drop_keys:
                q.pop(k, None)

        q["start"] = "0"
        new_query = urlencode(q, doseq=True)
        return urlunsplit((parts.scheme, parts.netloc, parts.path, new_query, parts.fragment))
\<close>\<close>

definition drop_keys :: "string list" where
  "drop_keys = [''currentJobId'', ''originToLandingJobPostings'', ''origin'', ''trackingId'',
                ''refId'', ''lipi'']"

definition normalize_search_url :: "string \<Rightarrow> error + string" where
  "normalize_search_url url =
     (case urlsplit url of
        Inl e \<Rightarrow> Inl e
      | Inr parts \<Rightarrow>
         (case parse_qsl True (query parts) of
            Inl e \<Rightarrow> Inl e
          | Inr pairs \<Rightarrow>
             (let q = dict pairs;
                  q = filter (\<lambda>(k, v). k \<notin> set drop_keys) q;
                  q = dict_set q ''start'' ''0''
              in case urlencode q of
                   Inl e \<Rightarrow> Inl e
                 | Inr new_query \<Rightarrow> Inr (urlunsplit (parts\<lparr>query := new_query\<rparr>)))))"

section \<open>Failures of the browser\<close>

text \<open>An exception is its class and its message (\<^verbatim>\<open>str(e)\<close>).  Only the classes the
  scrapers name are told apart; \<^verbatim>\<open>InvalidSessionIdException\<close> is a
  \<^verbatim>\<open>WebDriverException\<close> in Selenium, which matters nowhere below.\<close>

datatype exn_class =
    StaleElementReferenceException
  | TimeoutException
  | InvalidSessionIdException
  | WebDriverException
  | OtherException

datatype exn = Exn exn_class string

fun exn_class_of :: "exn \<Rightarrow> exn_class" where
  "exn_class_of (Exn c msg) = c"

text \<open>
\<^verbatim>\<open>
    def _is_driver_dead(self, e: Exception) -> bool:
        msg = str(e).lower()
        return (
            "invalid session id" in msg
            or "session deleted" in msg
            or "not connected to devtools" in msg
            or "disconnected" in msg
            or "chrome not reachable" in msg
            or "httpconnectionpool" in msg
            or "read timed out" in msg
        )
\<close>\<close>

fun is_driver_dead :: "exn \<Rightarrow> bool" where
  "is_driver_dead (Exn c m) =
     (let msg = py_lower m
      in contains msg ''invalid session id''
         \<or> contains msg ''session deleted''
         \<or> contains msg ''not connected to devtools''
         \<or> contains msg ''disconnected''
         \<or> contains msg ''chrome not reachable''
         \<or> contains msg ''httpconnectionpool''
         \<or> contains msg ''read timed out'')"

section \<open>Job ids and permalinks\<close>

text \<open>
\<^verbatim>\<open>
    def _job_permalink(self, job_id):
        if job_id and job_id != "N/A":
            return f"https://www.linkedin.com/jobs/view/{job_id}/"
        return "N/A"
\<close>
  (Linkedin\_Large.py only.)\<close>

definition job_permalink :: "string \<Rightarrow> string" where
  "job_permalink job_id =
     (if job_id \<noteq> [] \<and> job_id \<noteq> ''N/A'' then ''https://www.linkedin.com/jobs/view/'' @ job_id @ ''/''
      else ''N/A'')"

text \<open>
\<^verbatim>\<open>
def parse_qs(qs, keep_blank_values=False, ...):
    parsed_result = {}
    pairs = parse_qsl(qs, keep_blank_values, ...)
    for name, value in pairs:
        if name in parsed_result:
            parsed_result[name].append(value)
        else:
            parsed_result[name] = [value]
    return parsed_result
\<close>\<close>

definition parse_qs :: "string \<Rightarrow> error + (string \<times> string list) list" where
  "parse_qs qs =
     (case parse_qsl False qs of
        Inl e \<Rightarrow> Inl e
      | Inr pairs \<Rightarrow>
          Inr (foldl (\<lambda>parsed_result (name, val).
                        case map_of parsed_result name of
                          Some vals \<Rightarrow> dict_set parsed_result name (vals @ [val])
                        | None \<Rightarrow> dict_set parsed_result name [val])
                 [] pairs))"

text \<open>\<^verbatim>\<open>s.partition(needle)\<close> for a needle that occurs in \<open>s\<close>: what stands before its
  first occurrence and what stands after it; \<open>None\<close> when it does not occur.\<close>

fun find_str :: "string \<Rightarrow> string \<Rightarrow> (string \<times> string) option" where
  "find_str needle [] = (if needle = [] then Some ([], []) else None)"
| "find_str needle (c # cs) =
     (if starts_with (c # cs) needle then Some ([], drop (length needle) (c # cs))
      else case find_str needle cs of
             None \<Rightarrow> None
           | Some (b, a) \<Rightarrow> Some (c # b, a))"

text \<open>
\<^verbatim>\<open>
    def _extract_job_id_from_url(self, url):
        if not url:
            return "N/A"

        try:
            parts = urlsplit(url)
            qs = parse_qs(parts.query)
            if "currentJobId" in qs and qs["currentJobId"]:
                return qs["currentJobId"][0].strip()
        except:
            pass

        if "/jobs/view/" in url:
            try:
                return url.split("/jobs/view/")[1].split("/")[0].split("?")[0]
            except:
                pass

        return "N/A"
\<close>
  \<open>job_id_from_path\<close> is the second half: \<^verbatim>\<open>url.split("/jobs/view/")[1]\<close> is what
  stands between the first occurrence of the needle and the next one.  The
  result is \<open>None\<close> when \<^verbatim>\<open>urlsplit\<close> or \<^verbatim>\<open>parse_qs\<close> leaves the modelled part of
  the library; a \<open>ValueError\<close> is caught by the \<^verbatim>\<open>except\<close>.\<close>

definition job_id_from_path :: "string \<Rightarrow> string" where
  "job_id_from_path u =
     (case find_str ''/jobs/view/'' u of
        None \<Rightarrow> ''N/A''
      | Some (b, rest) \<Rightarrow>
          (let segment = (case find_str ''/jobs/view/'' rest of None \<Rightarrow> rest | Some (b', a') \<Rightarrow> b')
           in before CHR ''?'' (before CHR ''/'' segment)))"

definition extract_job_id_from_url :: "string \<Rightarrow> string option" where
  "extract_job_id_from_url u =
     (if u = [] then Some ''N/A''
      else case (case urlsplit u of Inl e \<Rightarrow> Inl e | Inr parts \<Rightarrow> parse_qs (query parts)) of
             Inl Unmodelled \<Rightarrow> None
           | Inl ValueError \<Rightarrow> Some (job_id_from_path u)
           | Inr qs \<Rightarrow>
               (case map_of qs ''currentJobId'' of
                  Some (v # vs) \<Rightarrow> Some (py_strip v)
                | Some [] \<Rightarrow> Some (job_id_from_path u)
                | None \<Rightarrow> Some (job_id_from_path u)))"

section \<open>Extracting the jobs of one page\<close>

text \<open>The two scrapers differ in few places of this part; the model takes the
  script as a parameter and says where they differ.\<close>

datatype script = Large | Small

text \<open>
\<^verbatim>\<open>
    def _wait_for_url_job_change(self, previous_job_id, timeout=7.0):
        end = time.time() + timeout
        while time.time() < end:
            try:                                          # Linkedin_Large.py
                cur_url = self.driver.current_url
            except Exception as e:
                if self._is_driver_dead(e):
                    raise
                cur_url = self.driver.current_url
            # cur_url = self.driver.current_url           # Linkedin_Small.py, no try

            cur_job_id = self._extract_job_id_from_url(cur_url)
            if cur_job_id != "N/A" and cur_job_id != previous_job_id:
                return cur_url, cur_job_id

            time.sleep(0.15)

        cur_url = self.driver.current_url
        return cur_url, self._extract_job_id_from_url(cur_url)
\<close>
  The clock is an input: \<open>polls\<close> are the reads of \<^verbatim>\<open>current_url\<close> the loop makes
  before the time is over, \<open>final\<close> is the read after the loop.  A poll has the
  read and, for Linkedin\_Large.py, the second read its handler makes when the
  first one raises a failure that is not a dead driver.\<close>

record url_poll =
  first_read :: "exn + string"
  second_read :: "exn + string"

definition poll_read :: "script \<Rightarrow> url_poll \<Rightarrow> exn + string" where
  "poll_read v p =
     (case first_read p of
        Inr cur_url \<Rightarrow> Inr cur_url
      | Inl e \<Rightarrow> (if v = Large \<and> \<not> is_driver_dead e then second_read p else Inl e))"

fun wait_for_url_job_change ::
  "script \<Rightarrow> string \<Rightarrow> url_poll list \<Rightarrow> exn + string \<Rightarrow> (exn + string \<times> string) option" where
  "wait_for_url_job_change v previous_job_id [] final =
     (case final of
        Inl e \<Rightarrow> Some (Inl e)
      | Inr cur_url \<Rightarrow>
          (case extract_job_id_from_url cur_url of
             None \<Rightarrow> None
           | Some cur_job_id \<Rightarrow> Some (Inr (cur_url, cur_job_id))))"
| "wait_for_url_job_change v previous_job_id (p # polls) final =
     (case poll_read v p of
        Inl e \<Rightarrow> Some (Inl e)
      | Inr cur_url \<Rightarrow>
          (case extract_job_id_from_url cur_url of
             None \<Rightarrow> None
           | Some cur_job_id \<Rightarrow>
               if cur_job_id \<noteq> ''N/A'' \<and> cur_job_id \<noteq> previous_job_id
               then Some (Inr (cur_url, cur_job_id))
               else wait_for_url_job_change v previous_job_id polls final))"

text \<open>
\<^verbatim>\<open>
    def _extract_title(self):
        selectors = [ ... ]                  # three selectors
        for sel in selectors:
            try:
                t = (self.driver.find_element(By.CSS_SELECTOR, sel).text or "").strip()
                if t and 3 < len(t) < 200 and t.lower() != "jobs":
                    return t
            except:
                continue
        return "N/A"
\<close>
  The input is what each selector gives, in order: the text of the element, or
  the fact that the search raised.\<close>

fun extract_title :: "string outcome list \<Rightarrow> string" where
  "extract_title [] = ''N/A''"
| "extract_title (Raised # reads) = extract_title reads"
| "extract_title (Returned txt # reads) =
     (let t = py_strip txt
      in if t \<noteq> [] \<and> 3 < length t \<and> length t < 200 \<and> py_lower t \<noteq> ''jobs'' then t
         else extract_title reads)"

text \<open>One record of the output (the dictionary \<^verbatim>\<open>job_data\<close>), and the part of the
  scraper object the extraction changes.  \<^verbatim>\<open>company_counts\<close> has a count for the
  company of every call: \<^verbatim>\<open>scrape_all_companies\<close> sets it (\<^verbatim>\<open>setdefault\<close>) before
  it scrapes the company.\<close>

record job =
  title :: string
  company :: string
  location :: string
  salary_range :: string
  posted_date :: string
  description :: string
  url :: string
  job_id :: string
  company_job_count :: nat
  scraped_at :: string

record scraper =
  jobs :: "job list"
  company_counts :: "string \<Rightarrow> nat"

text \<open>What the browser does when the loop reaches one card: the number of cards
  found again, whether the click succeeded, the reads of the URL while waiting,
  whether the detail pane loaded, the texts under the title selectors, and the
  texts the field helpers return (\<^verbatim>\<open>_extract_location_posted\<close>,
  \<^verbatim>\<open>_extract_description\<close>, \<^verbatim>\<open>_extract_salary_from_description\<close>: text clean-up,
  they catch every exception) and the clock.\<close>

record activation =
  act_cards :: "exn + nat"
  act_clicked :: bool
  act_polls :: "url_poll list"
  act_final :: "exn + string"
  act_details :: bool
  act_titles :: "string outcome list"
  act_location :: string
  act_posted :: string
  act_description :: string
  act_salary :: string
  act_now :: string

text \<open>The \<^verbatim>\<open>except\<close> clauses of the loop: \<open>True\<close> when the exception is raised again.
\<^verbatim>\<open>
            except (StaleElementReferenceException, TimeoutException):
                continue
            except Exception as e:                        # Linkedin_Large.py
                if self._is_driver_dead(e):
                    raise
                continue
            except InvalidSessionIdException:             # Linkedin_Small.py
                raise
            except Exception:
                continue
\<close>\<close>

definition reraised :: "script \<Rightarrow> exn \<Rightarrow> bool" where
  "reraised v e =
     (if exn_class_of e = StaleElementReferenceException \<or> exn_class_of e = TimeoutException then False
      else case v of
             Large \<Rightarrow> is_driver_dead e
           | Small \<Rightarrow> exn_class_of e = InvalidSessionIdException)"

text \<open>The \<^verbatim>\<open>url\<close> field.
\<^verbatim>\<open>
                url_for_json = self._job_permalink(job_id)           # Linkedin_Large.py
                    "url": url_for_json if url_for_json else "N/A",
                    "url": job_url if job_id != "N/A" else "N/A",    # Linkedin_Small.py
\<close>\<close>

definition url_for_json :: "script \<Rightarrow> string \<Rightarrow> string \<Rightarrow> string" where
  "url_for_json v job_url jid =
     (case v of
        Large \<Rightarrow> (if job_permalink jid \<noteq> [] then job_permalink jid else ''N/A'')
      | Small \<Rightarrow> (if jid \<noteq> ''N/A'' then job_url else ''N/A''))"

text \<open>
\<^verbatim>\<open>
        for i in range(limit):
            try:
                cards = self._find_job_cards()
                if i >= len(cards):
                    break

                card = cards[i]
                if not self._click_card(card):
                    continue

                job_url, job_id = self._wait_for_url_job_change(prev_job_id, timeout=7.0)
                prev_job_id = job_id

                if not self._wait_for_job_details_loaded():
                    continue
                self.human_delay(0.25, 0.65)

                title = self._extract_title()
                if title == "N/A":
                    continue

                location, posted = self._extract_location_posted()
                description = self._extract_description()
                salary = self._extract_salary_from_description(description)

                self.company_counts[company_name] += 1
                company_job_count = self.company_counts[company_name]

                job_data = { "title": title, "company": company_name, "location": location,
                    "salary_range": salary, "posted_date": posted, "description": description,
                    "url": ..., "job_id": job_id, "company_job_count": company_job_count,
                    "scraped_at": datetime.now().isoformat(), }

                self.jobs.append(job_data)
                count += 1
            except ...
        return count
\<close>
  The result is the scraper after the loop and either the count or the
  exception raised again; \<open>None\<close> when a URL leaves the modelled part of the
  library.\<close>

fun extract_cards ::
  "script \<Rightarrow> string \<Rightarrow> string \<Rightarrow> nat \<Rightarrow> activation list \<Rightarrow> scraper \<Rightarrow> nat
     \<Rightarrow> (scraper \<times> (exn + nat)) option" where
  "extract_cards v company_name prev_job_id i [] s count = Some (s, Inr count)"
| "extract_cards v company_name prev_job_id i (a # acts) s count =
     (case act_cards a of
        Inl e \<Rightarrow>
          (if reraised v e then Some (s, Inl e)
           else extract_cards v company_name prev_job_id (i + 1) acts s count)
      | Inr n \<Rightarrow>
          if i \<ge> n then Some (s, Inr count)
          else if \<not> act_clicked a then extract_cards v company_name prev_job_id (i + 1) acts s count
          else case wait_for_url_job_change v prev_job_id (act_polls a) (act_final a) of
                 None \<Rightarrow> None
               | Some (Inl e) \<Rightarrow>
                   (if reraised v e then Some (s, Inl e)
                    else extract_cards v company_name prev_job_id (i + 1) acts s count)
               | Some (Inr (job_url, jid)) \<Rightarrow>
                   if \<not> act_details a then extract_cards v company_name jid (i + 1) acts s count
                   else if extract_title (act_titles a) = ''N/A''
                   then extract_cards v company_name jid (i + 1) acts s count
                   else
                     let n' = company_counts s company_name + 1;
                         job_data = \<lparr>title = extract_title (act_titles a), company = company_name,
                                      location = act_location a, salary_range = act_salary a,
                                      posted_date = act_posted a, description = act_description a,
                                      url = url_for_json v job_url jid, job_id = jid,
                                      company_job_count = n', scraped_at = act_now a\<rparr>
                     in extract_cards v company_name jid (i + 1) acts
                          (s\<lparr>jobs := jobs s @ [job_data],
                             company_counts := (company_counts s)(company_name := n')\<rparr>)
                          (count + 1))"

text \<open>
\<^verbatim>\<open>
    def _extract_jobs_on_page(self, company_name):
        count = 0
        cards = self._find_job_cards()
        if not cards:
            return 0

        prev_job_id = self._extract_job_id_from_url(self.driver.current_url)
        limit = min(len(cards), self.PAGE_SIZE)           # Linkedin_Large.py
        for i in range(limit):                            # range(len(cards)) in Linkedin_Small.py
            ...
\<close>
  The input: the number of cards found first, the URL read first, and one
  activation for each card the loop reaches.  (An input with fewer activations
  than the limit ends the loop there.)\<close>

definition PAGE_SIZE :: nat where
  "PAGE_SIZE = 25"

record extraction =
  ex_cards :: "exn + nat"
  ex_url :: "exn + string"
  ex_acts :: "activation list"

definition extract_jobs_on_page ::
  "script \<Rightarrow> string \<Rightarrow> extraction \<Rightarrow> scraper \<Rightarrow> (scraper \<times> (exn + nat)) option" where
  "extract_jobs_on_page v company_name ex s =
     (case ex_cards ex of
        Inl e \<Rightarrow> Some (s, Inl e)
      | Inr n \<Rightarrow>
          if n = 0 then Some (s, Inr 0)
          else case ex_url ex of
                 Inl e \<Rightarrow> Some (s, Inl e)
               | Inr cur_url \<Rightarrow>
                   (case extract_job_id_from_url cur_url of
                      None \<Rightarrow> None
                    | Some prev_job_id \<Rightarrow>
                        (let limit = (case v of Large \<Rightarrow> min n PAGE_SIZE | Small \<Rightarrow> n)
                         in extract_cards v company_name prev_job_id 0 (take limit (ex_acts ex)) s 0)))"

section \<open>Page URLs\<close>

text \<open>\<^verbatim>\<open>str(n)\<close> for a natural number.\<close>

definition digit_char :: "nat \<Rightarrow> char" where
  "digit_char d = char_of (48 + d)"

function str_nat :: "nat \<Rightarrow> string" where
  "str_nat n = (if n < 10 then [digit_char n] else str_nat (n div 10) @ [digit_char (n mod 10)])"
  by pat_completeness auto
termination
  by (relation "measure id") auto

declare str_nat.simps [simp del]

text \<open>
\<^verbatim>\<open>
    def _set_query_param(self, url, key, value):
        parts = urlsplit(url)
        q = dict(parse_qsl(parts.query, keep_blank_values=True))
        q[key] = str(value)
        new_query = urlencode(q, doseq=True)
        return urlunsplit((parts.scheme, parts.netloc, parts.path, new_query, parts.fragment))
\<close>
  The value is always an offset, a natural number.\<close>

definition set_query_param :: "string \<Rightarrow> string \<Rightarrow> nat \<Rightarrow> error + string" where
  "set_query_param u key val =
     (case urlsplit u of
        Inl e \<Rightarrow> Inl e
      | Inr parts \<Rightarrow>
         (case parse_qsl True (query parts) of
            Inl e \<Rightarrow> Inl e
          | Inr pairs \<Rightarrow>
             (let q = dict pairs;
                  q = dict_set q key (str_nat val)
              in case urlencode q of
                   Inl e \<Rightarrow> Inl e
                 | Inr new_query \<Rightarrow> Inr (urlunsplit (parts\<lparr>query := new_query\<rparr>)))))"

section \<open>Loading a page and recovering the driver (Linkedin\_Large.py)\<close>

text \<open>
\<^verbatim>\<open>
    def safe_get(self, url, retries=3, wait_after=5.5):
        for attempt in range(1, retries + 1):
            try:
                self.driver.get(url)
                time.sleep(wait_after)
                return True
            except Exception as e:
                if self._is_driver_dead(e):
                    self._create_driver()
                    self._load_cookies()
                    continue
                return False
        return False
\<close>
  The input is what each \<^verbatim>\<open>driver.get\<close> does: \<open>None\<close> when it returns, the
  exception when it raises.  Starting a new browser (\<^verbatim>\<open>_create_driver\<close>) is taken
  to succeed; \<^verbatim>\<open>_load_cookies\<close> catches every exception.\<close>

fun safe_get_attempts :: "exn option list \<Rightarrow> bool" where
  "safe_get_attempts [] = False"
| "safe_get_attempts (None # attempts) = True"
| "safe_get_attempts (Some e # attempts) =
     (if is_driver_dead e then safe_get_attempts attempts else False)"

definition safe_get :: "nat \<Rightarrow> exn option list \<Rightarrow> bool" where
  "safe_get retries attempts = safe_get_attempts (take retries attempts)"

text \<open>
\<^verbatim>\<open>
    def recover_driver(self, url_to_resume: str):
        self._create_driver()
        self._load_cookies()

        ok = self.safe_get(url_to_resume, retries=3, wait_after=5.5)
        if not ok:
            return False

        if self._looks_logged_out():
            input("Resolve LinkedIn checkpoint/login in the browser, then press ENTER to continue... ")
            self._save_cookies()
            ok = self.safe_get(url_to_resume, retries=2, wait_after=5.5)

        return ok
\<close>
  \<^verbatim>\<open>_looks_logged_out\<close> catches every exception; what it returns is an input.\<close>

record recovery =
  rec_get :: "exn option list"
  rec_logged_out :: bool
  rec_get_again :: "exn option list"

definition recover_driver :: "recovery \<Rightarrow> bool" where
  "recover_driver r =
     (let ok = safe_get 3 (rec_get r)
      in if \<not> ok then False
         else if rec_logged_out r then safe_get 2 (rec_get_again r)
         else ok)"

section \<open>The end of the results\<close>

text \<open>
\<^verbatim>\<open>
    def _wait_for_results_or_end(self, timeout=25):
        end = time.time() + timeout
        while time.time() < end:
            if self._find_job_cards():
                return True

            no_res_selectors = [ ... ]                     # three selectors
            for sel in no_res_selectors:
                try:
                    el = self.driver.find_element(By.CSS_SELECTOR, sel)
                    txt = (el.text or "").lower()
                    if "no" in txt and "result" in txt:
                        return False
                except:
                    pass

            time.sleep(0.25)

        return False
\<close>
  The input is one poll for each turn of the loop before the time is over: the
  cards found (or the exception of \<^verbatim>\<open>find_elements\<close>, which nothing catches), and
  the text under each no-results selector (or the fact that the search
  raised).\<close>

record results_poll =
  found_cards :: "exn + card list"
  no_results_texts :: "string outcome list"

definition says_no_results :: "string outcome \<Rightarrow> bool" where
  "says_no_results r =
     (case r of
        Raised \<Rightarrow> False
      | Returned txt \<Rightarrow> contains (py_lower txt) ''no'' \<and> contains (py_lower txt) ''result'')"

fun wait_for_results_or_end :: "results_poll list \<Rightarrow> exn + bool" where
  "wait_for_results_or_end [] = Inr False"
| "wait_for_results_or_end (p # polls) =
     (case found_cards p of
        Inl e \<Rightarrow> Inl e
      | Inr cards \<Rightarrow>
          if cards \<noteq> [] then Inr True
          else if list_ex says_no_results (no_results_texts p) then Inr False
          else wait_for_results_or_end polls)"

section \<open>The crawl of one search URL (Linkedin\_Large.py)\<close>

text \<open>The state of a crawl: the scraper object, and two records of what it did to
  the world, kept to state the claims: the URLs \<^verbatim>\<open>scrape_single_url\<close> asked the
  browser to load, in order, and the list of jobs each call of \<^verbatim>\<open>save_results\<close>
  wrote.\<close>

record crawl =
  self :: scraper
  requested :: "string list"
  saved :: "job list list"

text \<open>How a call ends: it returns, it raises, or the input ends before the loop
  does.\<close>

datatype ending = Returns | Raises exn | Unfinished

text \<open>What the browser does during one turn of the loop of \<^verbatim>\<open>scrape_single_url\<close>,
  one field for each call that reads it, in the order of the calls:
  \<^item> \<open>pg_get\<close>: the attempts of \<^verbatim>\<open>safe_get\<close> to load the page;
  \<^item> \<open>pg_recover\<close>: the recovery \<^verbatim>\<open>recover_driver(next_url)\<close> after a failed load;
  \<^item> \<open>pg_logged_out\<close>: what \<^verbatim>\<open>_looks_logged_out\<close> returns;
  \<^item> \<open>pg_results\<close>: the polls of \<^verbatim>\<open>_wait_for_results_or_end\<close>;
  \<^item> \<open>pg_loaded\<close>: what \<^verbatim>\<open>_ensure_cards_loaded\<close> returns or raises;
  \<^item> \<open>pg_current_url\<close>: the read of \<^verbatim>\<open>self.driver.current_url\<close> in a handler;
  \<^item> \<open>pg_resume\<close>: the recovery \<^verbatim>\<open>recover_driver(self.driver.current_url)\<close>;
  \<^item> \<open>pg_cards\<close>: the cards \<^verbatim>\<open>_find_job_cards\<close> finds (line 723);
  \<^item> \<open>pg_signature_cards\<close>: the cards \<^verbatim>\<open>_page_signature\<close> finds;
  \<^item> \<open>pg_extraction\<close>: the input of \<^verbatim>\<open>_extract_jobs_on_page\<close>.\<close>

record page =
  pg_get :: "exn option list"
  pg_recover :: recovery
  pg_logged_out :: bool
  pg_results :: "results_poll list"
  pg_loaded :: "exn + bool"
  pg_current_url :: "exn + string"
  pg_resume :: recovery
  pg_cards :: "exn + card list"
  pg_signature_cards :: "exn + card list"
  pg_extraction :: extraction

text \<open>One turn of the loop either leaves the loop and the function, or goes on to
  the next turn with a new state and a new \<^verbatim>\<open>prev_sig\<close>; \<open>Outside\<close> when a URL leaves
  the modelled part of the library.\<close>

datatype step = Stop crawl ending | Next crawl "string list option" | Outside

text \<open>\<^verbatim>\<open>urlsplit\<close> raising \<^verbatim>\<open>ValueError\<close>, as an exception of the scraper.\<close>

definition value_error :: exn where
  "value_error = Exn OtherException ''ValueError''"

text \<open>
\<^verbatim>\<open>
            if max_pages and page_count > max_pages:
                break
\<close>\<close>

definition over_max_pages :: "nat option \<Rightarrow> nat \<Rightarrow> bool" where
  "over_max_pages max_pages page_count =
     (case max_pages of None \<Rightarrow> False | Some m \<Rightarrow> m \<noteq> 0 \<and> page_count > m)"

text \<open>
\<^verbatim>\<open>
            except Exception as e:
                if self._is_driver_dead(e):
                    logger.warning("Driver died ... Recovering and retrying page...")
                    if not self.recover_driver(self.driver.current_url):
                        break
                    continue
                raise
\<close>
  (the handler of \<^verbatim>\<open>_ensure_cards_loaded\<close> and of \<^verbatim>\<open>_extract_jobs_on_page\<close>; after
  \<^verbatim>\<open>continue\<close> the loop counts the next page).\<close>

definition driver_failure :: "page \<Rightarrow> exn \<Rightarrow> crawl \<Rightarrow> string list option \<Rightarrow> step" where
  "driver_failure p e c sig =
     (if is_driver_dead e then
        (case pg_current_url p of
           Inl e' \<Rightarrow> Stop c (Raises e')
         | Inr url_to_resume \<Rightarrow>
             if \<not> recover_driver (pg_resume p) then Stop c Returns else Next c sig)
      else Stop c (Raises e))"

text \<open>
\<^verbatim>\<open>
            try:
                if not self._ensure_cards_loaded(target=self.PAGE_SIZE, max_scrolls=12):
                    break
            except Exception as e:
                ...

            cards = self._find_job_cards()
            if not cards:
                break

            sig = self._page_signature(n=10)
            if sig and sig == prev_sig:
                break
            prev_sig = sig

            try:
                found = self._extract_jobs_on_page(company_name)
            except Exception as e:
                ...

            logger.info(f"  Found {found} jobs on this page")
            self.save_results()
\<close>
  The second half of a turn, once the page is loaded.\<close>

definition signature_repeated :: "string list \<Rightarrow> string list option \<Rightarrow> bool" where
  "signature_repeated sig prev_sig = (sig \<noteq> [] \<and> Some sig = prev_sig)"

definition process_page :: "string \<Rightarrow> string list option \<Rightarrow> page \<Rightarrow> crawl \<Rightarrow> step" where
  "process_page company_name prev_sig p c =
     (case pg_loaded p of
        Inl e \<Rightarrow> driver_failure p e c prev_sig
      | Inr False \<Rightarrow> Stop c Returns
      | Inr True \<Rightarrow>
          (case pg_cards p of
             Inl e \<Rightarrow> Stop c (Raises e)
           | Inr cards \<Rightarrow>
               if cards = [] then Stop c Returns
               else case pg_signature_cards p of
                      Inl e \<Rightarrow> Stop c (Raises e)
                    | Inr cards' \<Rightarrow>
                        (let sig = page_signature 10 cards'
                         in if signature_repeated sig prev_sig then Stop c Returns
                            else case extract_jobs_on_page Large company_name (pg_extraction p) (self c) of
                                   None \<Rightarrow> Outside
                                 | Some (s, Inl e) \<Rightarrow> driver_failure p e (c\<lparr>self := s\<rparr>) (Some sig)
                                 | Some (s, Inr found) \<Rightarrow>
                                     Next (c\<lparr>self := s, saved := saved c @ [jobs s]\<rparr>) (Some sig))))"

text \<open>
\<^verbatim>\<open>
        while True:
            page_count += 1
            start = (page_count - 1) * self.PAGE_SIZE

            if max_pages and page_count > max_pages:
                break

            if page_count > 1:
                next_url = self._set_query_param(base_url, "start", start)

                if not self.safe_get(next_url, retries=3, wait_after=4.5):
                    if not self.recover_driver(next_url):
                        break

                if self._looks_logged_out():
                    break

                if not self._wait_for_results_or_end(timeout=25):
                    break
            ...
\<close>
  \<open>page_count\<close> is the count after \<^verbatim>\<open>page_count += 1\<close>.\<close>

definition page_step ::
  "string \<Rightarrow> string \<Rightarrow> nat option \<Rightarrow> nat \<Rightarrow> string list option \<Rightarrow> page \<Rightarrow> crawl \<Rightarrow> step" where
  "page_step company_name base_url max_pages page_count prev_sig p c =
     (let start = (page_count - 1) * PAGE_SIZE
      in if over_max_pages max_pages page_count then Stop c Returns
         else if page_count > 1 then
           (case set_query_param base_url ''start'' start of
              Inl ValueError \<Rightarrow> Stop c (Raises value_error)
            | Inl Unmodelled \<Rightarrow> Outside
            | Inr next_url \<Rightarrow>
                (let c' = c\<lparr>requested := requested c @ [next_url]\<rparr>
                 in if \<not> safe_get 3 (pg_get p) \<and> \<not> recover_driver (pg_recover p) then Stop c' Returns
                    else if pg_logged_out p then Stop c' Returns
                    else case wait_for_results_or_end (pg_results p) of
                           Inl e \<Rightarrow> Stop c' (Raises e)
                         | Inr False \<Rightarrow> Stop c' Returns
                         | Inr True \<Rightarrow> process_page company_name prev_sig p c'))
         else process_page company_name prev_sig p c)"

fun scrape_pages ::
  "string \<Rightarrow> string \<Rightarrow> nat option \<Rightarrow> nat \<Rightarrow> string list option \<Rightarrow> page list \<Rightarrow> crawl
     \<Rightarrow> (crawl \<times> ending) option" where
  "scrape_pages company_name base_url max_pages page_count prev_sig [] c = Some (c, Unfinished)"
| "scrape_pages company_name base_url max_pages page_count prev_sig (p # pages) c =
     (case page_step company_name base_url max_pages (page_count + 1) prev_sig p c of
        Stop c' e \<Rightarrow> Some (c', e)
      | Outside \<Rightarrow> None
      | Next c' sig \<Rightarrow> scrape_pages company_name base_url max_pages (page_count + 1) sig pages c')"

text \<open>
\<^verbatim>\<open>
    def scrape_single_url(self, company_name, url, max_pages=None):
        base_url = self._normalize_search_url(url)
        base_url = self._set_query_param(base_url, "start", 0)

        if not self.safe_get(base_url, retries=3, wait_after=5.5):
            return

        if self._looks_logged_out():
            return

        if not self._wait_for_results_or_end(timeout=25):
            return

        page_count = 0
        prev_sig = None

        while True:
            ...
\<close>
  The first page of the input also says how the load before the loop goes
  (\<open>pg_get\<close>, \<open>pg_logged_out\<close>, \<open>pg_results\<close>, which the first turn of the loop does
  not read).\<close>

definition scrape_single_url ::
  "string \<Rightarrow> string \<Rightarrow> nat option \<Rightarrow> page list \<Rightarrow> crawl \<Rightarrow> (crawl \<times> ending) option" where
  "scrape_single_url company_name u max_pages pages c =
     (case (case normalize_search_url u of Inl e \<Rightarrow> Inl e | Inr b \<Rightarrow> set_query_param b ''start'' 0) of
        Inl ValueError \<Rightarrow> Some (c, Raises value_error)
      | Inl Unmodelled \<Rightarrow> None
      | Inr base_url \<Rightarrow>
          (case pages of
             [] \<Rightarrow> Some (c, Unfinished)
           | p # rest \<Rightarrow>
               (let c' = c\<lparr>requested := requested c @ [base_url]\<rparr>
                in if \<not> safe_get 3 (pg_get p) then Some (c', Returns)
                   else if pg_logged_out p then Some (c', Returns)
                   else case wait_for_results_or_end (pg_results p) of
                          Inl e \<Rightarrow> Some (c', Raises e)
                        | Inr False \<Rightarrow> Some (c', Returns)
                        | Inr True \<Rightarrow> scrape_pages company_name base_url max_pages 0 None pages c')))"



section \<open>The crawl of one company (Linkedin\_Small.py)\<close>

text \<open>What the browser does during one turn of the loop of
  \<^verbatim>\<open>scrape_single_company\<close>: what \<^verbatim>\<open>_ensure_cards_loaded\<close> returns or raises, the
  cards \<^verbatim>\<open>_find_job_cards\<close> finds, the input of \<^verbatim>\<open>_extract_jobs_on_page\<close>, what
  \<^verbatim>\<open>self.driver.get(next_url)\<close> does (\<open>None\<close> when it returns), and the polls of
  \<^verbatim>\<open>_wait_for_results_or_end\<close> on the next page.\<close>

record small_page =
  sp_loaded :: "exn + bool"
  sp_cards :: "exn + card list"
  sp_extraction :: extraction
  sp_get :: "exn option"
  sp_results :: "results_poll list"

text \<open>One turn of the loop leaves the \<^verbatim>\<open>try\<close> block, by \<^verbatim>\<open>break\<close> (\<open>None\<close>) or by an
  exception, or goes on with a new state and a new set of first listing ids.\<close>

datatype small_step = Leave crawl "exn option" | Again crawl "string set" | Outside_small

text \<open>
\<^verbatim>\<open>
            while True:
                page_count += 1
                if max_pages and page_count > max_pages:
                    break

                if not self._ensure_cards_loaded(target=25, max_scrolls=12):
                    break

                cards = self._find_job_cards()
                if not cards:
                    break

                first_listing_id = self._get_listing_anchor_id(cards[0])
                if first_listing_id and first_listing_id in seen_first_listing_ids:
                    break
                if first_listing_id:
                    seen_first_listing_ids.add(first_listing_id)

                found = self._extract_jobs_on_page(company_name)
                self.save_results()

                next_start = page_count * 25
                next_url = self._set_query_param(base_url, "start", next_start)

                self.driver.get(next_url)
                self.human_delay(2.2, 4.0)

                if not self._wait_for_results_or_end(timeout=25):
                    break
\<close>\<close>

definition small_page_step ::
  "string \<Rightarrow> string \<Rightarrow> nat option \<Rightarrow> nat \<Rightarrow> string set \<Rightarrow> small_page \<Rightarrow> crawl \<Rightarrow> small_step" where
  "small_page_step company_name base_url max_pages page_count seen_first_listing_ids p c =
     (if over_max_pages max_pages page_count then Leave c None
      else case sp_loaded p of
             Inl e \<Rightarrow> Leave c (Some e)
           | Inr False \<Rightarrow> Leave c None
           | Inr True \<Rightarrow>
               (case sp_cards p of
                  Inl e \<Rightarrow> Leave c (Some e)
                | Inr cards \<Rightarrow>
                    if cards = [] then Leave c None
                    else
                      let first_listing_id = get_listing_anchor_id (hd cards);
                          known = (case first_listing_id of
                                     None \<Rightarrow> False
                                   | Some i \<Rightarrow> i \<noteq> [] \<and> i \<in> seen_first_listing_ids);
                          seen = (case first_listing_id of
                                    None \<Rightarrow> seen_first_listing_ids
                                  | Some i \<Rightarrow> if i \<noteq> [] then insert i seen_first_listing_ids
                                              else seen_first_listing_ids)
                      in if known then Leave c None
                         else case extract_jobs_on_page Small company_name (sp_extraction p) (self c) of
                                None \<Rightarrow> Outside_small
                              | Some (s, Inl e) \<Rightarrow> Leave (c\<lparr>self := s\<rparr>) (Some e)
                              | Some (s, Inr found) \<Rightarrow>
                                  (let c1 = c\<lparr>self := s, saved := saved c @ [jobs s]\<rparr>;
                                       next_start = page_count * 25
                                   in case set_query_param base_url ''start'' next_start of
                                        Inl ValueError \<Rightarrow> Leave c1 (Some value_error)
                                      | Inl Unmodelled \<Rightarrow> Outside_small
                                      | Inr next_url \<Rightarrow>
                                          (let c2 = c1\<lparr>requested := requested c1 @ [next_url]\<rparr>
                                           in case sp_get p of
                                                Some e \<Rightarrow> Leave c2 (Some e)
                                              | None \<Rightarrow>
                                                  (case wait_for_results_or_end (sp_results p) of
                                                     Inl e \<Rightarrow> Leave c2 (Some e)
                                                   | Inr False \<Rightarrow> Leave c2 None
                                                   | Inr True \<Rightarrow> Again c2 seen)))))"

text \<open>The loop: the crawl when the \<^verbatim>\<open>try\<close> block is left and the exception that
  leaves it, if any; \<open>Unfinished\<close> when the input ends before the loop does.\<close>

datatype left = Left "exn option" | Input_ended

fun small_pages ::
  "string \<Rightarrow> string \<Rightarrow> nat option \<Rightarrow> nat \<Rightarrow> string set \<Rightarrow> small_page list \<Rightarrow> crawl
     \<Rightarrow> (crawl \<times> left) option" where
  "small_pages company_name base_url max_pages page_count seen [] c = Some (c, Input_ended)"
| "small_pages company_name base_url max_pages page_count seen (p # pages) c =
     (case small_page_step company_name base_url max_pages (page_count + 1) seen p c of
        Leave c' e \<Rightarrow> Some (c', Left e)
      | Outside_small \<Rightarrow> None
      | Again c' seen' \<Rightarrow> small_pages company_name base_url max_pages (page_count + 1) seen' pages c')"

text \<open>
\<^verbatim>\<open>
    def scrape_single_company(self, company_name, url, max_pages=None):
        try:
            base_url = self._normalize_search_url(url)
            base_url = self._set_query_param(base_url, "start", 0)

            self.driver.get(base_url)
            time.sleep(6)

            if not self._wait_for_results_or_end(timeout=25):
                return

            page_count = 0
            seen_first_listing_ids = set()

            while True:
                ...

        except InvalidSessionIdException:
            raise
        except Exception as e:
            logger.error(f"Error scraping company {company_name}: {str(e)}")
\<close>
  \<open>try_block\<close> is the body of the \<^verbatim>\<open>try\<close>; the two \<^verbatim>\<open>except\<close> clauses follow in
  \<open>scrape_single_company\<close>.  The input: what the first \<^verbatim>\<open>driver.get\<close> does, the
  polls of the first wait, and the pages.\<close>

record small_crawl =
  sc_get :: "exn option"
  sc_results :: "results_poll list"
  sc_pages :: "small_page list"

definition try_block ::
  "string \<Rightarrow> string \<Rightarrow> nat option \<Rightarrow> small_crawl \<Rightarrow> crawl \<Rightarrow> (crawl \<times> left) option" where
  "try_block company_name u max_pages inp c =
     (case (case normalize_search_url u of Inl e \<Rightarrow> Inl e | Inr b \<Rightarrow> set_query_param b ''start'' 0) of
        Inl ValueError \<Rightarrow> Some (c, Left (Some value_error))
      | Inl Unmodelled \<Rightarrow> None
      | Inr base_url \<Rightarrow>
          (let c' = c\<lparr>requested := requested c @ [base_url]\<rparr>
           in case sc_get inp of
                Some e \<Rightarrow> Some (c', Left (Some e))
              | None \<Rightarrow>
                  (case wait_for_results_or_end (sc_results inp) of
                     Inl e \<Rightarrow> Some (c', Left (Some e))
                   | Inr False \<Rightarrow> Some (c', Left None)
                   | Inr True \<Rightarrow> small_pages company_name base_url max_pages 0 {} (sc_pages inp) c')))"

definition scrape_single_company ::
  "string \<Rightarrow> string \<Rightarrow> nat option \<Rightarrow> small_crawl \<Rightarrow> crawl \<Rightarrow> (crawl \<times> ending) option" where
  "scrape_single_company company_name u max_pages inp c =
     (case try_block company_name u max_pages inp c of
        None \<Rightarrow> None
      | Some (c', Input_ended) \<Rightarrow> Some (c', Unfinished)
      | Some (c', Left None) \<Rightarrow> Some (c', Returns)
      | Some (c', Left (Some e)) \<Rightarrow>
          if exn_class_of e = InvalidSessionIdException then Some (c', Raises e)
          else Some (c', Returns))"



section \<open>Notions used in the statements and proofs\<close>

definition quote_plus_char :: "char \<Rightarrow> string" where
  "quote_plus_char c = (if c = CHR '' '' then ''+'' else quote_char False c)"

definition query_char :: "char \<Rightarrow> bool" where
  "query_char c = (always_safe c \<or> c = CHR ''+'' \<or> c = CHR ''%'')"

definition unplus :: "char \<Rightarrow> char" where
  "unplus c = (if c = CHR ''+'' then CHR '' '' else c)"

definition field_char :: "char \<Rightarrow> bool" where
  "field_char c = (query_char c \<or> c = CHR ''='')"

definition sep_char :: "char \<Rightarrow> bool" where
  "sep_char c = (field_char c \<or> c = CHR ''&'')"

text \<open>The dictionary that normalize_search_url encodes.\<close>

definition normalized_query :: "(string \<times> string) list \<Rightarrow> (string \<times> string) list" where
  "normalized_query pairs =
     dict_set (filter (\<lambda>(k, v). k \<notin> set drop_keys) (dict pairs)) ''start'' ''0''"

definition wf_parts :: "split_result \<Rightarrow> bool" where
  "wf_parts p =
     ((scheme p \<noteq> [] \<longrightarrow> is_ascii (hd (scheme p)) \<and> ascii_alpha (hd (scheme p))
         \<and> list_all scheme_char (scheme p) \<and> py_lower (scheme p) = scheme p)
      \<and> (\<forall>c\<in>set (scheme p @ netloc p @ path p @ fragment p). \<not> unsafe_url_byte c)
      \<and> (\<forall>c\<in>set (netloc p). \<not> netloc_delim c)
      \<and> check_brackets (netloc p) = Inr () \<and> checknetloc (netloc p) = Inr ()
      \<and> CHR ''?'' \<notin> set (path p) \<and> CHR ''#'' \<notin> set (path p)
      \<and> (path p \<noteq> [] \<longrightarrow> \<not> c0_control_or_space (hd (path p)) \<or> scheme p \<noteq> [])
      \<and> (scheme p = [] \<longrightarrow> split_scheme (path p) = ([], path p))
      \<and> (netloc p \<noteq> [] \<longrightarrow> path p = [] \<or> starts_with (path p) ''/''))"

text \<open>The path as urlunsplit writes it.\<close>

definition needs_netloc :: "split_result \<Rightarrow> bool" where
  "needs_netloc p =
     (netloc p \<noteq> [] \<or> (scheme p \<noteq> [] \<and> scheme p \<in> set uses_netloc) \<or> starts_with (path p) ''//'')"

definition written_path :: "split_result \<Rightarrow> string" where
  "written_path p =
     (if needs_netloc p \<and> path p \<noteq> [] \<and> \<not> starts_with (path p) ''/'' then ''/'' @ path p
      else path p)"


text \<open>A title the extraction accepts, and what the extraction loop guarantees of a
  record it appends.\<close>

definition valid_title :: "string \<Rightarrow> bool" where
  "valid_title t = (t \<noteq> [] \<and> t \<noteq> ''N/A'' \<and> 3 < length t \<and> length t < 200 \<and> py_lower t \<noteq> ''jobs'')"

definition appended_by :: "script \<Rightarrow> string \<Rightarrow> job \<Rightarrow> bool" where
  "appended_by v company_name j =
     (valid_title (title j) \<and> company j = company_name
      \<and> (\<exists>job_url. extract_job_id_from_url job_url = Some (job_id j)
             \<and> url j = url_for_json v job_url (job_id j)))"

text \<open>The value of the parameter \<^verbatim>\<open>start\<close> of a URL, and the values of the first \<open>k\<close>
  pages of a search.\<close>

definition start_of :: "string \<Rightarrow> string option" where
  "start_of u =
     (case urlsplit u of
        Inl e \<Rightarrow> None
      | Inr parts \<Rightarrow>
          (case parse_qsl True (query parts) of
             Inl e \<Rightarrow> None
           | Inr pairs \<Rightarrow> map_of (dict pairs) ''start''))"

definition offsets :: "nat \<Rightarrow> string option list" where
  "offsets k = map (\<lambda>i. Some (str_nat (i * PAGE_SIZE))) [0..<k]"

text \<open>What a crawl shows from outside: how it ends, the URLs it asked for, and the
  job ids in each list it saved.\<close>

definition crawl_trace ::
  "(crawl \<times> ending) option \<Rightarrow> (ending \<times> string list \<times> string list list) option" where
  "crawl_trace r = map_option (\<lambda>(c, e). (e, requested c, map (map job_id) (saved c))) r"

section \<open>Inputs of the examples\<close>

text \<open>Two cards for the examples below: a promoted card with listing id 1, and an
  ordinary card with listing id 2.\<close>

definition promoted_card_1 :: card where
  "promoted_card_1 =
     \<lparr>card_text = Returned ''Promoted'', occludable_job_id = Returned (Some ''1''),
      data_job_id = Returned None\<rparr>"

definition plain_card_2 :: card where
  "plain_card_2 =
     \<lparr>card_text = Returned ''Engineer'', occludable_job_id = Returned (Some ''2''),
      data_job_id = Returned None\<rparr>"

text \<open>A scraper that has collected nothing yet, and a poll whose read succeeds.\<close>

definition new_scraper :: scraper where
  "new_scraper = \<lparr>jobs = [], company_counts = (\<lambda>name. 0)\<rparr>"

definition read_ok :: "string \<Rightarrow> url_poll" where
  "read_ok u = \<lparr>first_read = Inr u, second_read = Inr u\<rparr>"

text \<open>Activations of a card of a page of two cards.  The detail pane loads and a
  title is found under the second selector; what differs is the URL the browser
  shows after the click:
  \<^item> \<open>click_without_id\<close>: the URL never gets a \<^verbatim>\<open>currentJobId\<close> (the wait times out);
  \<^item> \<open>click_blank_id\<close>: the URL gets a \<^verbatim>\<open>currentJobId\<close> that is a single space;
  \<^item> \<open>click_job_42\<close>: the URL gets \<^verbatim>\<open>currentJobId=42\<close>, on the page of the given
    offset.\<close>

definition shown :: "string \<Rightarrow> string \<Rightarrow> activation" where
  "shown u heading =
     \<lparr>act_cards = Inr 2, act_clicked = True, act_polls = [read_ok u], act_final = Inr u,
      act_details = True, act_titles = [Raised, Returned heading],
      act_location = ''Toronto, ON'', act_posted = ''2 days ago'', act_description = ''N/A'',
      act_salary = ''N/A'', act_now = ''2026-01-10T10:00:00''\<rparr>"

definition click_without_id :: activation where
  "click_without_id =
     shown ''https://www.linkedin.com/jobs/search/?f_C=2775&start=0'' ''  Mortgage Specialist  ''"

definition click_blank_id :: activation where
  "click_blank_id =
     shown ''https://www.linkedin.com/jobs/search/?currentJobId=+&f_C=2775&start=0'' ''Analyst''"

definition click_job_42 :: "string \<Rightarrow> activation" where
  "click_job_42 offset =
     shown (''https://www.linkedin.com/jobs/search/?currentJobId=42&f_C=2775&start='' @ offset)
       ''Underwriter''"

definition page_of :: "string \<Rightarrow> activation list \<Rightarrow> extraction" where
  "page_of offset acts =
     \<lparr>ex_cards = Inr 2,
      ex_url = Inr (''https://www.linkedin.com/jobs/search/?f_C=2775&start='' @ offset),
      ex_acts = acts\<rparr>"

text \<open>Inputs of crawls.  A search and its normalised form, the page of offset 25, and
  a second search; pages that show one job; pages whose extraction raises, or
  that cannot be loaded; companies of Linkedin\_Small.py.\<close>

definition seed_url :: string where
  "seed_url = ''https://www.linkedin.com/jobs/search/?currentJobId=7&f_C=2775''"

definition listing_card :: "string \<Rightarrow> card" where
  "listing_card jid =
     \<lparr>card_text = Returned ''Underwriter'', occludable_job_id = Returned (Some jid),
      data_job_id = Returned None\<rparr>"

definition cards_shown :: results_poll where
  "cards_shown = \<lparr>found_cards = Inr [plain_card_2], no_results_texts = []\<rparr>"

definition read_timed_out :: exn where
  "read_timed_out =
     Exn WebDriverException ''HTTPConnectionPool(host=localhost, port=52113): Read timed out.''"

definition restart_works :: recovery where
  "restart_works = \<lparr>rec_get = [None], rec_logged_out = False, rec_get_again = []\<rparr>"

definition click_job :: "string \<Rightarrow> string \<Rightarrow> activation" where
  "click_job jid offset =
     shown (''https://www.linkedin.com/jobs/search/?currentJobId='' @ jid @ ''&f_C=2775&start='' @ offset)
       ''Underwriter''"

definition page_with_job :: "string \<Rightarrow> string \<Rightarrow> page" where
  "page_with_job jid offset =
     \<lparr>pg_get = [None], pg_recover = restart_works, pg_logged_out = False,
      pg_results = [cards_shown], pg_loaded = Inr True,
      pg_current_url = Inr (''https://www.linkedin.com/jobs/search/?f_C=2775&start='' @ offset),
      pg_resume = restart_works, pg_cards = Inr [listing_card jid],
      pg_signature_cards = Inr [listing_card jid],
      pg_extraction = page_of offset [click_job jid offset]\<rparr>"

definition page_failing :: "exn \<Rightarrow> string \<Rightarrow> string \<Rightarrow> page" where
  "page_failing e jid offset =
     (page_with_job jid offset)
       \<lparr>pg_extraction := \<lparr>ex_cards = Inl e, ex_url = Inl e, ex_acts = []\<rparr>\<rparr>"











definition new_crawl :: crawl where
  "new_crawl = \<lparr>self = new_scraper, requested = [], saved = []\<rparr>"

definition base_url_2775 :: string where
  "base_url_2775 = ''https://www.linkedin.com/jobs/search/?f_C=2775&start=0''"

definition url_25 :: string where
  "url_25 = ''https://www.linkedin.com/jobs/search/?f_C=2775&start=25''"

chapter \<open>The job scrapers: verification\<close>

section \<open>String operations\<close>

lemma py_isdigit_nonempty: "py_isdigit s \<Longrightarrow> s \<noteq> []"
  by (simp add: py_isdigit_def)

section \<open>The page signature\<close>

lemma attr_id_nonempty: "attr_id r = Some v \<Longrightarrow> v \<noteq> []"
  by (auto simp: attr_id_def py_isdigit_def split: outcome.splits option.splits if_splits)

lemma get_listing_anchor_id_nonempty: "get_listing_anchor_id c = Some v \<Longrightarrow> v \<noteq> []"
  by (auto simp: get_listing_anchor_id_def split: option.splits dest: attr_id_nonempty)

lemma collect_ids_all:
  "0 < n \<Longrightarrow> length ids < n \<Longrightarrow>
   collect_ids n False cards ids = take n (ids @ anchor_ids cards)"
proof (induction cards arbitrary: ids)
  case Nil
  then show ?case by (simp add: anchor_ids_def)
next
  case (Cons c cs)
  show ?case
  proof (cases "get_listing_anchor_id c")
    case None
    with Cons show ?thesis
      by (simp add: anchor_ids_def)
  next
    case (Some jid)
    then have ne: "jid \<noteq> []" by (rule get_listing_anchor_id_nonempty)
    show ?thesis
    proof (cases "Suc (length ids) < n")
      case True
      with Cons.IH [of "ids @ [jid]"] Cons.prems Some ne show ?thesis
        by (simp add: anchor_ids_def)
    next
      case False
      with Cons.prems have "n = Suc (length ids)" by simp
      with Some ne show ?thesis
        by (simp add: anchor_ids_def)
    qed
  qed
qed

lemma collect_ids_skip:
  "0 < n \<Longrightarrow> length ids < n \<Longrightarrow>
   collect_ids n True cards ids = take n (ids @ anchor_ids (non_promoted cards))"
proof (induction cards arbitrary: ids)
  case Nil
  then show ?case by (simp add: anchor_ids_def non_promoted_def)
next
  case (Cons c cs)
  show ?case
  proof (cases "is_promoted_card c")
    case True
    with Cons show ?thesis by (simp add: non_promoted_def)
  next
    case np: False
    show ?thesis
    proof (cases "get_listing_anchor_id c")
      case None
      with Cons np show ?thesis
        by (simp add: anchor_ids_def non_promoted_def)
    next
      case (Some jid)
      then have ne: "jid \<noteq> []" by (rule get_listing_anchor_id_nonempty)
      show ?thesis
      proof (cases "Suc (length ids) < n")
        case True
        with Cons.IH [of "ids @ [jid]"] Cons.prems Some ne np show ?thesis
          by (simp add: anchor_ids_def non_promoted_def)
      next
        case False
        with Cons.prems have "n = Suc (length ids)" by simp
        with Some ne np show ?thesis
          by (simp add: anchor_ids_def non_promoted_def)
      qed
    qed
  qed
qed

lemma non_promoted_idem: "non_promoted (non_promoted cards) = non_promoted cards"
  by (simp add: non_promoted_def)

lemma take_eq_Nil_pos: "0 < n \<Longrightarrow> (take n xs = []) = (xs = [])"
  by (cases xs) auto

lemma page_signature_eq:
  assumes "0 < n"
  shows "page_signature n cards =
           (if anchor_ids (non_promoted cards) \<noteq> [] then take n (anchor_ids (non_promoted cards))
            else take n (anchor_ids cards))"
proof -
  have a: "collect_ids n True cards [] = take n (anchor_ids (non_promoted cards))"
    using collect_ids_skip [of n "[]" cards] assms by simp
  have b: "collect_ids n False cards [] = take n (anchor_ids cards)"
    using collect_ids_all [of n "[]" cards] assms by simp
  show ?thesis
    using assms by (simp add: page_signature_def a b take_eq_Nil_pos)
qed

text \<open>
  Claim C5, as the code has it.  For a depth \<open>n > 0\<close>, the signature is the first
  \<open>n\<close> listing ids of the non-promoted cards, in rendered order.  The fallback to
  all cards (promoted ones included) is taken only when the non-promoted cards
  give no id at all, not whenever they give fewer than \<open>n\<close>.  Consequently, when
  the non-promoted cards give at least \<open>n\<close> ids, the signature of the page is the
  signature of the page restricted to its non-promoted cards.
\<close>

theorem page_signature_promoted_excluded:
  "0 < n \<Longrightarrow>
     page_signature n cards =
       (if anchor_ids (non_promoted cards) \<noteq> [] then take n (anchor_ids (non_promoted cards))
        else take n (anchor_ids cards))
   \<and> (n \<le> length (anchor_ids (non_promoted cards)) \<longrightarrow>
        page_signature n cards = page_signature n (non_promoted cards)
      \<and> length (page_signature n cards) = n)"
proof -
  assume n: "0 < n"
  have eq: "page_signature n cards =
       (if anchor_ids (non_promoted cards) \<noteq> [] then take n (anchor_ids (non_promoted cards))
        else take n (anchor_ids cards))"
    by (rule page_signature_eq [OF n])
  have "page_signature n cards = page_signature n (non_promoted cards)
      \<and> length (page_signature n cards) = n"
    if le: "n \<le> length (anchor_ids (non_promoted cards))"
  proof -
    from le n have ne: "anchor_ids (non_promoted cards) \<noteq> []" by auto
    have "page_signature n (non_promoted cards) = take n (anchor_ids (non_promoted cards))"
      using ne by (simp add: page_signature_eq [OF n] non_promoted_idem)
    with eq ne le show ?thesis by simp
  qed
  with eq show ?thesis by blast
qed

theorem page_signature_promoted_excluded_witness:
  "page_signature 1 [promoted_card_1, plain_card_2] = [''2'']
   \<and> page_signature 1 [promoted_card_1, plain_card_2]
       = page_signature 1 (non_promoted [promoted_card_1, plain_card_2])"
proof -
  have n: "0 < (1::nat)" by simp
  have le: "1 \<le> length (anchor_ids (non_promoted [promoted_card_1, plain_card_2]))"
    by code_simp
  have v: "page_signature 1 [promoted_card_1, plain_card_2] = [''2'']"
    by code_simp
  from page_signature_promoted_excluded [OF n, of "[promoted_card_1, plain_card_2]"] le v
  show ?thesis by blast
qed

text \<open>
  Claim C5 as stated fails: here fewer than 10 non-promoted ids exist (one), and
  the signature is that one id alone; the promoted card's id is not added.
\<close>

theorem page_signature_no_fallback_counterexample:
  "length (anchor_ids (non_promoted [promoted_card_1, plain_card_2])) < 10
   \<and> anchor_ids [promoted_card_1, plain_card_2] = [''1'', ''2'']
   \<and> is_promoted_card promoted_card_1
   \<and> page_signature 10 [promoted_card_1, plain_card_2] = [''2'']"
  by code_simp
lemma code_lt_256: "code c < 256"
  by (simp add: code_def)

lemma char_of_code: "char_of (code c) = c"
  by (simp add: code_def)

lemma code_char_of: "n < 256 \<Longrightarrow> code (char_of n) = n"
  by (simp add: code_def)

lemma char_eq_code: "(c = d) = (code c = code d)"
  by (auto simp: code_def)

lemma code_lits:
  "code CHR ''%'' = 37" "code CHR ''+'' = 43" "code CHR '' '' = 32" "code CHR ''&'' = 38"
  "code CHR ''='' = 61" "code CHR ''#'' = 35" "code CHR ''?'' = 63" "code CHR ''/'' = 47"
  "code CHR '':'' = 58" "code CHR ''_'' = 95" "code CHR ''.'' = 46" "code CHR ''-'' = 45"
  "code CHR ''~'' = 126" "code CHR ''['' = 91" "code CHR '']'' = 93"
  by (simp_all add: code_def)

lemma hex_char_props:
  assumes "n < 16"
  shows "hex_digit (hex_char n)" "hex_val (hex_char n) = n" "always_safe (hex_char n)"
  using assms
  by (auto simp: hex_char_def hex_digit_def hex_val_def ascii_digit_def always_safe_def ascii_alpha_def code_char_of)

lemma always_safe_not_special:
  "always_safe c \<Longrightarrow> c \<noteq> CHR '' '' \<and> c \<noteq> CHR ''+'' \<and> c \<noteq> CHR ''%'' \<and> c \<noteq> CHR ''&''
     \<and> c \<noteq> CHR ''='' \<and> c \<noteq> CHR ''#'' \<and> c \<noteq> CHR ''?'' \<and> c \<noteq> CHR ''/'' \<and> c \<noteq> CHR '':''"
  by (auto simp: always_safe_def ascii_alpha_def ascii_digit_def code_lits)

lemma hex_char_safe: "always_safe (hex_char (code c div 16))" "always_safe (hex_char (code c mod 16))"
  using code_lt_256 [of c] by (auto intro!: hex_char_props(3))

lemma hex_char_not_special:
  "hex_char (code c div 16) \<noteq> CHR '' ''" "hex_char (code c mod 16) \<noteq> CHR '' ''"
  "hex_char (code c div 16) \<noteq> CHR ''+''" "hex_char (code c mod 16) \<noteq> CHR ''+''"
  "hex_char (code c div 16) \<noteq> CHR ''%''" "hex_char (code c mod 16) \<noteq> CHR ''%''"
  using always_safe_not_special [OF hex_char_safe(1) [of c]] always_safe_not_special [OF hex_char_safe(2) [of c]]
  by auto

lemma quote_char_True_map:
  "map (\<lambda>c. if c = CHR '' '' then CHR ''+'' else c) (quote_char True c) = quote_plus_char c"
  by (auto simp: quote_char_def quote_plus_char_def hex_char_not_special dest!: always_safe_not_special)

lemma quote_plus_eq:
  assumes "quote_plus s = Inr r"
  shows "r = concat (map quote_plus_char s)" and "list_all is_ascii s"
proof -
  show "list_all is_ascii s"
    using assms by (cases "s = []") (auto simp: quote_plus_def quote_def split: if_splits sum.splits)
  show "r = concat (map quote_plus_char s)"
  proof (cases "CHR '' '' \<in> set s")
    case False
    then have "map quote_plus_char s = map (quote_char False) s"
      by (auto simp: quote_plus_char_def)
    moreover from False assms have "r = concat (map (quote_char False) s)"
      by (auto simp: quote_plus_def quote_def split: if_splits)
    ultimately show ?thesis by (simp only:)
  next
    case True
    then have ne: "s \<noteq> []" by auto
    from True assms ne have r: "r = map (\<lambda>c. if c = CHR '' '' then CHR ''+'' else c) (concat (map (quote_char True) s))"
      by (auto simp: quote_plus_def quote_def split: if_splits sum.splits)
    show ?thesis
      unfolding r by (simp add: map_concat comp_def quote_char_True_map)
  qed
qed

lemma quote_plus_total:
  "list_all is_ascii s \<Longrightarrow> quote_plus s = Inr (concat (map quote_plus_char s))"
proof -
  assume a: "list_all is_ascii s"
  then have "\<exists>r. quote_plus s = Inr r"
    by (simp add: quote_plus_def quote_def)
  then show ?thesis using quote_plus_eq(1) by blast
qed

lemma quote_plus_char_query: "c' \<in> set (quote_plus_char c) \<Longrightarrow> query_char c'"
  by (auto simp: quote_plus_char_def quote_char_def query_char_def hex_char_safe split: if_splits)

lemma quote_plus_query_chars:
  "quote_plus s = Inr r \<Longrightarrow> list_all query_char r"
  by (auto simp: list_all_iff dest!: quote_plus_eq(1) quote_plus_char_query)

text \<open>Decoding what quote_plus wrote.\<close>

lemma unquote_no_percent: "CHR ''%'' \<notin> set s \<Longrightarrow> unquote_walk s = Inr s"
  by (induction s) auto

lemma unquote_eq_walk: "unquote s = unquote_walk s"
  by (simp add: unquote_def unquote_no_percent)

lemma map_unplus_quote_plus_char:
  "map unplus (quote_plus_char c) = (if c = CHR '' '' then '' '' else quote_char False c)"
  by (auto simp: quote_plus_char_def quote_char_def unplus_def hex_char_not_special
      dest!: always_safe_not_special)

lemma unquote_walk_step:
  assumes "is_ascii c"
  shows "unquote_walk (map unplus (quote_plus_char c) @ rest) =
           (case unquote_walk rest of Inl e \<Rightarrow> Inl e | Inr r \<Rightarrow> Inr (c # r))"
proof (cases "c = CHR '' '' \<or> always_safe c")
  case True
  then have "map unplus (quote_plus_char c) = [c]" "c \<noteq> CHR ''%''"
    by (auto simp: map_unplus_quote_plus_char quote_char_def dest!: always_safe_not_special)
  then show ?thesis by (simp split: sum.splits)
next
  case False
  have d: "code c div 16 < 16" "code c mod 16 < 16"
    using code_lt_256 [of c] by auto
  have b: "16 * (code c div 16) + code c mod 16 = code c" by simp
  from False have m: "map unplus (quote_plus_char c) = [CHR ''%'', hex_char (code c div 16), hex_char (code c mod 16)]"
    by (auto simp: map_unplus_quote_plus_char quote_char_def)
  show ?thesis
    unfolding m using assms
    by (simp add: hex_char_props d b char_of_code is_ascii_def split: sum.splits)
qed

lemma unquote_walk_concat:
  "list_all is_ascii s \<Longrightarrow> unquote_walk (concat (map (map unplus \<circ> quote_plus_char) s)) = Inr s"
  by (induction s) (simp_all add: unquote_walk_step)

lemma unquote_plus_quote_plus:
  assumes "quote_plus s = Inr r"
  shows "unquote_plus r = Inr s"
proof -
  from quote_plus_eq [OF assms] have r: "r = concat (map quote_plus_char s)" and a: "list_all is_ascii s"
    by auto
  have "unquote_plus r = unquote_walk (map unplus r)"
    by (simp add: unquote_plus_def unquote_eq_walk unplus_def [abs_def])
  also have "map unplus r = concat (map (map unplus \<circ> quote_plus_char) s)"
    by (simp add: r map_concat)
  finally show ?thesis by (simp add: unquote_walk_concat [OF a])
qed

lemma split_on_no_sep: "sep \<notin> set s \<Longrightarrow> split_on sep s = [s]"
  by (induction s) auto

lemma split_on_append: "sep \<notin> set x \<Longrightarrow> split_on sep (x @ sep # rest) = x # split_on sep rest"
  by (induction x) auto

lemma split_on_join:
  "l \<noteq> [] \<Longrightarrow> \<forall>x\<in>set l. sep \<notin> set x \<Longrightarrow> split_on sep (join [sep] l) = l"
proof (induction "[sep]" l rule: join.induct)
  case 1
  then show ?case by simp
next
  case (2 x)
  then show ?case by (simp add: split_on_no_sep)
next
  case (3 x y ys)
  then show ?case by (simp add: split_on_append)
qed

lemma before_append: "c \<notin> set x \<Longrightarrow> before c (x @ c # rest) = x"
  by (induction x) (auto simp: before_def)

lemma after_append: "c \<notin> set x \<Longrightarrow> after c (x @ c # rest) = rest"
  by (induction x) (auto simp: after_def)

lemma query_char_not_sep: "query_char c \<Longrightarrow> c \<noteq> CHR ''&'' \<and> c \<noteq> CHR ''='' \<and> c \<noteq> CHR ''#'' \<and> c \<noteq> CHR ''?''"
  by (auto simp: query_char_def dest!: always_safe_not_special)

lemma quote_plus_no_sep:
  assumes "quote_plus s = Inr r"
  shows "CHR ''&'' \<notin> set r" "CHR ''='' \<notin> set r" "CHR ''#'' \<notin> set r" "CHR ''?'' \<notin> set r"
  using quote_plus_query_chars [OF assms] query_char_not_sep
  by (auto simp: list_all_iff)

lemma encode_fields_parse:
  "encode_fields q = Inr l \<Longrightarrow>
     parse_fields True l = Inr q \<and> length l = length q
     \<and> (\<forall>x\<in>set l. x \<noteq> [] \<and> list_all field_char x)"
proof (induction q arbitrary: l)
  case Nil
  then show ?case by simp
next
  case (Cons kv q)
  obtain k v where kv: "kv = (k, v)" by (cases kv)
  from Cons.prems kv obtain k' v' l' where
    k': "quote_plus k = Inr k'" and v': "quote_plus v = Inr v'" and l': "encode_fields q = Inr l'"
    and l: "l = (k' @ ''='' @ v') # l'"
    by (auto split: sum.splits)
  have b: "before CHR ''='' (k' @ CHR ''='' # v') = k'" "after CHR ''='' (k' @ CHR ''='' # v') = v'"
    using quote_plus_no_sep(2) [OF k'] by (simp_all add: before_append after_append)
  have fc: "list_all field_char k'" "field_char CHR ''=''" "list_all field_char v'"
    using quote_plus_query_chars [OF k'] quote_plus_query_chars [OF v']
    by (auto simp: list_all_iff field_char_def)
  from Cons.IH [OF l'] show ?case
    by (simp add: l kv b fc unquote_plus_quote_plus [OF k'] unquote_plus_quote_plus [OF v'])
qed

lemma field_char_not_amp: "field_char c \<Longrightarrow> c \<noteq> CHR ''&'' \<and> c \<noteq> CHR ''#'' \<and> c \<noteq> CHR ''?''"
  by (auto simp: field_char_def dest: query_char_not_sep)

lemma join_nonempty: "l \<noteq> [] \<Longrightarrow> \<forall>x\<in>set l. x \<noteq> [] \<Longrightarrow> join sep l \<noteq> []"
  by (induction sep l rule: join.induct) auto

lemma join_chars: "\<forall>x\<in>set l. list_all field_char x \<Longrightarrow> list_all sep_char (join ''&'' l)"
  by (induction "''&''" l rule: join.induct) (auto simp: list_all_iff sep_char_def)

lemma urlencode_parse:
  assumes "urlencode q = Inr Q" and "q \<noteq> []"
  shows "parse_qsl True Q = Inr q" and "Q \<noteq> []" and "list_all sep_char Q"
proof -
  from assms obtain l where l: "encode_fields q = Inr l" and Q: "Q = join ''&'' l"
    by (auto simp: urlencode_def split: sum.splits)
  from encode_fields_parse [OF l] have p: "parse_fields True l = Inr q" and len: "length l = length q"
    and ne: "\<forall>x\<in>set l. x \<noteq> [] \<and> list_all field_char x" by auto
  from len assms(2) have lne: "l \<noteq> []" by auto
  show "Q \<noteq> []" using join_nonempty [OF lne] ne by (simp add: Q)
  moreover have "\<forall>x\<in>set l. CHR ''&'' \<notin> set x"
    using ne field_char_not_amp by (auto simp: list_all_iff)
  then have "split_on CHR ''&'' (join ''&'' l) = l"
    by (rule split_on_join [OF lne])
  ultimately show "parse_qsl True Q = Inr q"
    by (simp add: parse_qsl_def Q p)
  show "list_all sep_char Q" using join_chars ne by (simp add: Q)
qed

lemma dict_set_keys_old: "k \<in> fst ` set d \<Longrightarrow> map fst (dict_set d k v) = map fst d"
  by (induction d k v rule: dict_set.induct) auto

lemma dict_set_keys_new: "k \<notin> fst ` set d \<Longrightarrow> map fst (dict_set d k v) = map fst d @ [k]"
  by (induction d k v rule: dict_set.induct) auto

lemma dict_set_distinct: "distinct (map fst d) \<Longrightarrow> distinct (map fst (dict_set d k v))"
  by (cases "k \<in> fst ` set d") (simp_all add: dict_set_keys_old dict_set_keys_new)

lemma dict_set_nonempty: "dict_set d k v \<noteq> []"
  by (induction d k v rule: dict_set.induct) auto

lemma dict_set_fresh: "k \<notin> fst ` set d \<Longrightarrow> dict_set d k v = d @ [(k, v)]"
  by (induction d k v rule: dict_set.induct) auto

lemma dict_set_idem: "dict_set (dict_set d k v) k v = dict_set d k v"
  by (induction d k v rule: dict_set.induct) auto

lemma map_of_dict_set: "map_of (dict_set d k v) = (map_of d)(k \<mapsto> v)"
  by (induction d k v rule: dict_set.induct) (auto simp: fun_upd_twist)


lemma foldl_dict_set_distinct:
  "distinct (map fst acc) \<Longrightarrow> distinct (map fst (foldl (\<lambda>d (k, v). dict_set d k v) acc ps))"
  by (induction ps arbitrary: acc) (auto simp: dict_set_distinct)

lemma dict_distinct: "distinct (map fst (dict ps))"
  by (simp add: dict_def foldl_dict_set_distinct)

lemma foldl_dict_set_append:
  "distinct (map fst (acc @ d)) \<Longrightarrow> foldl (\<lambda>d (k, v). dict_set d k v) acc d = acc @ d"
proof (induction d arbitrary: acc)
  case Nil
  then show ?case by simp
next
  case (Cons kv d)
  obtain k v where kv: "kv = (k, v)" by (cases kv)
  from Cons.prems kv have fresh: "k \<notin> fst ` set acc" by auto
  from Cons.prems kv have "distinct (map fst ((acc @ [(k, v)]) @ d))" by auto
  from Cons.IH [OF this] show ?case
    by (simp add: kv dict_set_fresh [OF fresh])
qed

lemma dict_id: "distinct (map fst d) \<Longrightarrow> dict d = d"
  using foldl_dict_set_append [of "[]" d] by (simp add: dict_def)

lemma foldl_dict_set_map_of:
  "map_of (foldl (\<lambda>d (k, v). dict_set d k v) acc ps) = map_of acc ++ map_of (rev ps)"
proof (induction ps arbitrary: acc)
  case Nil
  then show ?case by simp
next
  case (Cons kv ps)
  obtain k v where kv: "kv = (k, v)" by (cases kv)
  show ?case
    by (simp add: kv Cons.IH map_of_dict_set map_add_upd_left map_add_def fun_eq_iff split: option.splits)
qed

lemma map_of_dict: "map_of (dict ps) = map_of (rev ps)"
  by (simp add: dict_def foldl_dict_set_map_of)

lemma map_of_filter_key:
  "map_of (filter (\<lambda>(k, v). P k) d) k = (if P k then map_of d k else None)"
  by (induction d) auto


lemma normalized_query_distinct: "distinct (map fst (normalized_query ps))"
  by (simp add: normalized_query_def dict_set_distinct distinct_map_filter dict_distinct)

lemma normalized_query_nonempty: "normalized_query ps \<noteq> []"
  by (simp add: normalized_query_def dict_set_nonempty)


lemma map_of_normalized_query:
  "map_of (normalized_query ps) k =
     (if k = ''start'' then Some ''0''
      else if k \<in> set drop_keys then None
      else map_of (rev ps) k)"
  by (simp add: normalized_query_def map_of_dict_set map_of_filter_key map_of_dict)

lemma normalize_search_url_unfold:
  "normalize_search_url u =
     (case urlsplit u of
        Inl e \<Rightarrow> Inl e
      | Inr parts \<Rightarrow>
         (case parse_qsl True (query parts) of
            Inl e \<Rightarrow> Inl e
          | Inr pairs \<Rightarrow>
             (case urlencode (normalized_query pairs) of
                Inl e \<Rightarrow> Inl e
              | Inr new_query \<Rightarrow> Inr (urlunsplit (parts\<lparr>query := new_query\<rparr>)))))"
  by (simp add: normalize_search_url_def normalized_query_def Let_def split: sum.splits)

section \<open>Splitting at a character\<close>

lemma set_before: "set (before c s) \<subseteq> set s"
  by (auto simp: before_def dest: set_takeWhileD)

lemma set_after: "set (after c s) \<subseteq> set s"
  by (auto simp: after_def dest: in_set_dropD set_dropWhileD)

lemma not_in_before: "c \<notin> set (before c s)"
  by (auto simp: before_def dest: set_takeWhileD)

lemma before_id: "c \<notin> set s \<Longrightarrow> before c s = s"
  by (auto simp: before_def)

lemma before_prefix: "c \<in> set p \<Longrightarrow> before c (p @ r) = before c p"
  by (induction p) (auto simp: before_def)

lemma before_is_prefix: "\<exists>r. s = before c s @ r"
  by (metis before_def takeWhile_dropWhile_id)

lemma hd_before: "before c s \<noteq> [] \<Longrightarrow> hd (before c s) = hd s"
  by (cases s) (auto simp: before_def split: if_splits)

lemma starts_with_take: "starts_with s p = (take (length p) s = p)"
  by (induction s p rule: starts_with.induct) auto

lemma starts_with_slashes_append:
  "\<not> starts_with p ''//'' \<Longrightarrow> c \<noteq> CHR ''/'' \<Longrightarrow> \<not> starts_with (p @ c # x) ''//''"
  by (cases p; cases "tl p") auto

section \<open>What urlsplit returns\<close>

lemma lower_char_scheme:
  "scheme_char c \<Longrightarrow> scheme_char (lower_char c) \<and> lower_char (lower_char c) = lower_char c
     \<and> (ascii_alpha c \<longrightarrow> ascii_alpha (lower_char c)) \<and> is_ascii (lower_char c)
     \<and> \<not> unsafe_url_byte (lower_char c)"
  by (auto simp: scheme_char_def lower_char_def ascii_alpha_def ascii_digit_def code_char_of
      code_lits is_ascii_def unsafe_url_byte_def)

lemma py_lower_scheme:
  assumes "list_all scheme_char s" "s \<noteq> []" "ascii_alpha (hd s)"
  shows "list_all scheme_char (py_lower s)" "py_lower (py_lower s) = py_lower s"
    "ascii_alpha (hd (py_lower s))" "is_ascii (hd (py_lower s))" "py_lower s \<noteq> []"
    "\<forall>c\<in>set (py_lower s). \<not> unsafe_url_byte c"
  using assms lower_char_scheme
  by (auto simp: py_lower_def list_all_iff hd_map)

lemma unsafe_is_c0: "unsafe_url_byte c \<Longrightarrow> c0_control_or_space c"
  by (auto simp: unsafe_url_byte_def c0_control_or_space_def)

lemma url1_props:
  fixes u defines "url1 \<equiv> filter (\<lambda>c. \<not> unsafe_url_byte c) (dropWhile c0_control_or_space u)"
  shows "\<forall>c\<in>set url1. \<not> unsafe_url_byte c" "url1 \<noteq> [] \<longrightarrow> \<not> c0_control_or_space (hd url1)"
proof -
  show "\<forall>c\<in>set url1. \<not> unsafe_url_byte c" by (simp add: url1_def)
  show "url1 \<noteq> [] \<longrightarrow> \<not> c0_control_or_space (hd url1)"
  proof (cases "dropWhile c0_control_or_space u")
    case Nil
    show ?thesis unfolding url1_def Nil by simp
  next
    case (Cons x xs)
    then have "\<not> c0_control_or_space x"
      using hd_dropWhile [of c0_control_or_space u] by auto
    then have "\<not> unsafe_url_byte x" using unsafe_is_c0 [of x] by auto
    with \<open>\<not> c0_control_or_space x\<close> show ?thesis unfolding url1_def Cons by simp
  qed
qed

lemma urlsplit_Inr:
  assumes "urlsplit u = Inr p"
  defines "url1 \<equiv> filter (\<lambda>c. \<not> unsafe_url_byte c) (dropWhile c0_control_or_space u)"
  defines "url2 \<equiv> snd (split_scheme url1)"
  defines "url3 \<equiv> (if starts_with url2 ''//'' then snd (splitnetloc url2) else url2)"
  shows "scheme p = fst (split_scheme url1)"
    and "netloc p = (if starts_with url2 ''//'' then fst (splitnetloc url2) else [])"
    and "check_brackets (netloc p) = Inr ()"
    and "checknetloc (netloc p) = Inr ()"
    and "path p = before CHR ''?'' (before CHR ''#'' url3)"
    and "query p = (if CHR ''?'' \<in> set (before CHR ''#'' url3) then after CHR ''?'' (before CHR ''#'' url3) else [])"
    and "fragment p = (if CHR ''#'' \<in> set url3 then after CHR ''#'' url3 else [])"
proof -
  have cb: "check_brackets [] = Inr ()" by (simp add: check_brackets_def)
  from assms(1) have
    "scheme p = fst (split_scheme url1)
     \<and> netloc p = (if starts_with url2 ''//'' then fst (splitnetloc url2) else [])
     \<and> check_brackets (netloc p) = Inr ()
     \<and> checknetloc (netloc p) = Inr ()
     \<and> path p = before CHR ''?'' (before CHR ''#'' url3)
     \<and> query p = (if CHR ''?'' \<in> set (before CHR ''#'' url3) then after CHR ''?'' (before CHR ''#'' url3) else [])
     \<and> fragment p = (if CHR ''#'' \<in> set url3 then after CHR ''#'' url3 else [])"
    unfolding urlsplit_def url1_def url2_def url3_def Let_def
    by (auto simp: cb before_id split: prod.splits sum.splits if_splits)
  then show "scheme p = fst (split_scheme url1)"
    and "netloc p = (if starts_with url2 ''//'' then fst (splitnetloc url2) else [])"
    and "check_brackets (netloc p) = Inr ()"
    and "checknetloc (netloc p) = Inr ()"
    and "path p = before CHR ''?'' (before CHR ''#'' url3)"
    and "query p = (if CHR ''?'' \<in> set (before CHR ''#'' url3) then after CHR ''?'' (before CHR ''#'' url3) else [])"
    and "fragment p = (if CHR ''#'' \<in> set url3 then after CHR ''#'' url3 else [])"
    by blast+
qed

lemma split_scheme_cases:
  "split_scheme s = ([], s)
   \<or> (\<exists>pre. pre \<noteq> [] \<and> list_all scheme_char pre \<and> ascii_alpha (hd pre) \<and> hd pre = hd s
          \<and> split_scheme s = (py_lower pre, after CHR '':'' s))"
  by (auto simp: split_scheme_def Let_def hd_before)

lemma split_scheme_prefix:
  assumes "split_scheme (p @ r) = ([], p @ r)"
  shows "split_scheme p = ([], p)"
proof (rule ccontr)
  assume n: "split_scheme p \<noteq> ([], p)"
  then have c: "CHR '':'' \<in> set p" "before CHR '':'' p \<noteq> []" "is_ascii (hd p)" "ascii_alpha (hd p)"
    "list_all scheme_char (before CHR '':'' p)"
    by (auto simp: split_scheme_def Let_def split: if_splits)
  then have "p \<noteq> []" by auto
  with c have "split_scheme (p @ r) = (py_lower (before CHR '':'' p), after CHR '':'' (p @ r))"
    by (simp add: split_scheme_def Let_def before_prefix)
  with assms c(2) show False by (simp add: py_lower_def)
qed

lemma splitnetloc_props:
  "\<forall>c\<in>set (fst (splitnetloc s)). \<not> netloc_delim c"
  "snd (splitnetloc s) = [] \<or> netloc_delim (hd (snd (splitnetloc s)))"
  "set (fst (splitnetloc s)) \<subseteq> set s" "set (snd (splitnetloc s)) \<subseteq> set s"
proof -
  show "\<forall>c\<in>set (fst (splitnetloc s)). \<not> netloc_delim c"
    by (auto simp: splitnetloc_def dest: set_takeWhileD)
  show "snd (splitnetloc s) = [] \<or> netloc_delim (hd (snd (splitnetloc s)))"
    using hd_dropWhile [of "\<lambda>c. \<not> netloc_delim c" "drop 2 s"]
    by (auto simp: splitnetloc_def)
  show "set (fst (splitnetloc s)) \<subseteq> set s"
    by (auto simp: splitnetloc_def dest!: set_takeWhileD in_set_dropD)
  show "set (snd (splitnetloc s)) \<subseteq> set s"
    by (auto simp: splitnetloc_def dest!: set_dropWhileD in_set_dropD)
qed

lemma urlsplit_wf:
  assumes "urlsplit u = Inr p"
  shows "wf_parts p"
proof -
  define url1 where "url1 = filter (\<lambda>c. \<not> unsafe_url_byte c) (dropWhile c0_control_or_space u)"
  define url2 where "url2 = snd (split_scheme url1)"
  define url3 where "url3 = (if starts_with url2 ''//'' then snd (splitnetloc url2) else url2)"
  note r = urlsplit_Inr [OF assms, folded url1_def, folded url2_def, folded url3_def]
  have u1: "\<forall>c\<in>set url1. \<not> unsafe_url_byte c" "url1 \<noteq> [] \<longrightarrow> \<not> c0_control_or_space (hd url1)"
    using url1_props [of u] by (simp_all add: url1_def)
  have sc: "split_scheme url1 = (scheme p, url2)"
    by (simp add: r(1) url2_def)
  have s12: "set url2 \<subseteq> set url1"
    using split_scheme_cases [of url1] set_after [of "CHR '':''" url1] by (auto simp: url2_def)
  have s23: "set url3 \<subseteq> set url2" "set (netloc p) \<subseteq> set url2"
    using splitnetloc_props(3,4) [of url2] by (auto simp: url3_def r(2))
  have pp: "set (path p) \<subseteq> set url3" "set (fragment p) \<subseteq> set url3"
    using set_before [of "CHR ''?''" "before CHR ''#'' url3"] set_before [of "CHR ''#''" url3]
      set_after [of "CHR ''#''" url3]
    by (auto simp: r(5,7))
  have "\<exists>rest. url3 = path p @ rest"
  proof -
    obtain r1 where r1: "url3 = before CHR ''#'' url3 @ r1"
      using before_is_prefix by blast
    obtain r2 where r2: "before CHR ''#'' url3 = path p @ r2"
      unfolding r(5) using before_is_prefix by blast
    from r1 r2 have "url3 = path p @ (r2 @ r1)" by simp
    then show ?thesis by blast
  qed
  then obtain rest where rest: "url3 = path p @ rest" by blast
  have a: "scheme p \<noteq> [] \<longrightarrow> is_ascii (hd (scheme p)) \<and> ascii_alpha (hd (scheme p))
         \<and> list_all scheme_char (scheme p) \<and> py_lower (scheme p) = scheme p"
    using split_scheme_cases [of url1] py_lower_scheme by (auto simp: sc)
  have b: "\<forall>c\<in>set (scheme p @ netloc p @ path p @ fragment p). \<not> unsafe_url_byte c"
  proof -
    have "\<forall>c\<in>set (scheme p). \<not> unsafe_url_byte c"
      using split_scheme_cases [of url1] py_lower_scheme(6) by (auto simp: sc)
    moreover have "set (netloc p) \<union> set (path p) \<union> set (fragment p) \<subseteq> set url1"
      using s12 s23 pp by blast
    ultimately show ?thesis using u1(1) by (simp add: subset_iff) blast
  qed
  have c: "\<forall>c\<in>set (netloc p). \<not> netloc_delim c"
    using splitnetloc_props(1) [of url2] by (simp add: r(2))
  have e: "CHR ''?'' \<notin> set (path p)" "CHR ''#'' \<notin> set (path p)"
    using not_in_before [of "CHR ''?''" "before CHR ''#'' url3"] not_in_before [of "CHR ''#''" url3]
      set_before [of "CHR ''?''" "before CHR ''#'' url3"]
    by (auto simp: r(5))
  have hd3: "path p \<noteq> [] \<Longrightarrow> hd (path p) = hd url3"
    by (simp add: rest)
  have slash: "starts_with url2 ''//'' \<Longrightarrow> path p \<noteq> [] \<Longrightarrow> hd (path p) = CHR ''/''"
  proof -
    assume s: "starts_with url2 ''//''" and ne: "path p \<noteq> []"
    then have "url3 \<noteq> []" by (simp add: rest)
    with s splitnetloc_props(2) [of url2] have "netloc_delim (hd url3)" by (simp add: url3_def)
    with hd3 [OF ne] e ne show ?thesis
      by (cases "path p") (auto simp: netloc_delim_def)
  qed
  have j: "netloc p \<noteq> [] \<longrightarrow> path p = [] \<or> starts_with (path p) ''/''"
  proof (cases "starts_with url2 ''//''")
    case True
    from slash [OF True] show ?thesis by (cases "path p") auto
  next
    case False
    then show ?thesis by (simp add: r(2))
  qed
  have f: "path p \<noteq> [] \<longrightarrow> \<not> c0_control_or_space (hd (path p)) \<or> scheme p \<noteq> []"
  proof (cases "starts_with url2 ''//''")
    case True
    from slash [OF True] show ?thesis by (auto simp: c0_control_or_space_def code_lits)
  next
    case False
    then have "url3 = url2" by (simp add: url3_def)
    moreover have "scheme p = [] \<Longrightarrow> url2 = url1"
      using sc split_scheme_cases [of url1] by (auto simp: py_lower_def)
    ultimately show ?thesis using hd3 u1(2) rest by auto
  qed
  have g: "scheme p = [] \<longrightarrow> split_scheme (path p) = ([], path p)"
  proof (cases "starts_with url2 ''//''")
    case True
    show ?thesis
    proof (cases "path p = []")
      case True
      then show ?thesis by (simp add: split_scheme_def before_def)
    next
      case False
      with slash [OF True] show ?thesis
        by (simp add: split_scheme_def Let_def ascii_alpha_def code_lits)
    qed
  next
    case False
    then have 3: "url3 = url2" by (simp add: url3_def)
    show ?thesis
    proof
      assume s: "scheme p = []"
      then have "url2 = url1" using sc split_scheme_cases [of url1] by (auto simp: py_lower_def)
      with sc s 3 rest have "split_scheme (path p @ rest) = ([], path p @ rest)" by simp
      then show "split_scheme (path p) = ([], path p)" by (rule split_scheme_prefix)
    qed
  qed
  show ?thesis
    unfolding wf_parts_def using a b c r(3,4) e f g j by blast
qed

lemma sep_char_props:
  "sep_char c \<Longrightarrow> \<not> unsafe_url_byte c \<and> \<not> c0_control_or_space c \<and> c \<noteq> CHR ''#'' \<and> c \<noteq> CHR ''?''"
  by (auto simp: sep_char_def field_char_def query_char_def always_safe_def ascii_alpha_def
      ascii_digit_def unsafe_url_byte_def c0_control_or_space_def code_lits)

lemma scheme_char_props:
  "scheme_char c \<Longrightarrow> c \<noteq> CHR '':'' \<and> c \<noteq> CHR ''?'' \<and> \<not> c0_control_or_space c"
  by (auto simp: scheme_char_def ascii_alpha_def ascii_digit_def c0_control_or_space_def code_lits)

lemma urlsplit_eval:
  assumes "filter (\<lambda>c. \<not> unsafe_url_byte c) (dropWhile c0_control_or_space u) = url1"
    and "split_scheme url1 = (sch, url2)"
    and "starts_with url2 ''//'' \<Longrightarrow> splitnetloc url2 = (nl, url3) \<and> check_brackets nl = Inr ()"
    and "\<not> starts_with url2 ''//'' \<Longrightarrow> nl = [] \<and> url3 = url2"
    and "checknetloc nl = Inr ()"
    and "CHR ''#'' \<in> set url3 \<Longrightarrow> before CHR ''#'' url3 = url4 \<and> after CHR ''#'' url3 = frag"
    and "CHR ''#'' \<notin> set url3 \<Longrightarrow> url4 = url3 \<and> frag = []"
    and "CHR ''?'' \<in> set url4 \<Longrightarrow> before CHR ''?'' url4 = url5 \<and> after CHR ''?'' url4 = qry"
    and "CHR ''?'' \<notin> set url4 \<Longrightarrow> url5 = url4 \<and> qry = []"
  shows "urlsplit u = Inr \<lparr>scheme = sch, netloc = nl, path = url5, query = qry, fragment = frag\<rparr>"
  using assms unfolding urlsplit_def Let_def
  by (cases "starts_with url2 ''//''"; cases "CHR ''#'' \<in> set url3"; cases "CHR ''?'' \<in> set url4") simp_all

lemma split_scheme_extend:
  assumes "split_scheme p = ([], p)"
  shows "split_scheme (p @ CHR ''?'' # x) = ([], p @ CHR ''?'' # x)"
proof (cases "CHR '':'' \<in> set p")
  case True
  then have ne: "p \<noteq> []" by auto
  from assms True have "\<not> (before CHR '':'' p \<noteq> [] \<and> is_ascii (hd p) \<and> ascii_alpha (hd p)
      \<and> list_all scheme_char (before CHR '':'' p))"
    by (auto simp: split_scheme_def Let_def py_lower_def split: if_splits)
  with True ne show ?thesis
    by (auto simp: split_scheme_def Let_def before_prefix)
next
  case False
  have "\<not> list_all scheme_char (before CHR '':'' (p @ CHR ''?'' # x))"
    using False scheme_char_props [of "CHR ''?''"]
    by (auto simp: before_def takeWhile_append list_all_iff)
  then show ?thesis by (simp add: split_scheme_def Let_def)
qed

lemma take_drop_while_append:
  assumes "\<forall>c\<in>set n. P c" "t = [] \<or> \<not> P (hd t)"
  shows "takeWhile P (n @ t) = n" "dropWhile P (n @ t) = t"
  using assms by (cases t; simp add: takeWhile_append dropWhile_append)+

lemma urlunsplit_form:
  assumes "Q \<noteq> []"
  shows "urlunsplit (p\<lparr>query := Q\<rparr>) =
     (if scheme p \<noteq> [] then scheme p @ '':'' else []) @
     (if needs_netloc p then ''//'' @ netloc p else []) @
     written_path p @ CHR ''?'' # Q @ (if fragment p \<noteq> [] then CHR ''#'' # fragment p else [])"
  using assms by (simp add: urlunsplit_def needs_netloc_def written_path_def Let_def)

lemma written_path_slash: "needs_netloc p \<Longrightarrow> written_path p = [] \<or> starts_with (written_path p) ''/''"
  by (cases "path p") (auto simp: written_path_def)

lemma written_path_fix:
  "needs_netloc (p\<lparr>path := written_path p\<rparr>) = needs_netloc p"
  "written_path (p\<lparr>path := written_path p\<rparr>) = written_path p"
proof -
  show n: "needs_netloc (p\<lparr>path := written_path p\<rparr>) = needs_netloc p"
    by (cases "path p"; cases "tl (path p)") (auto simp: needs_netloc_def written_path_def)
  show "written_path (p\<lparr>path := written_path p\<rparr>) = written_path p"
    unfolding written_path_def [of "p\<lparr>path := written_path p\<rparr>"] n
    using written_path_slash [of p] by (auto simp: written_path_def)
qed

lemma urlsplit_urlunsplit:
  assumes wf: "wf_parts p" and Q: "Q \<noteq> []" "list_all sep_char Q"
  shows "urlsplit (urlunsplit (p\<lparr>query := Q\<rparr>)) = Inr (p\<lparr>query := Q, path := written_path p\<rparr>)"
proof -
  define fr where "fr = (if fragment p \<noteq> [] then CHR ''#'' # fragment p else [])"
  define tail where "tail = written_path p @ CHR ''?'' # Q @ fr"
  define rest where "rest = (if needs_netloc p then ''//'' @ netloc p else []) @ tail"
  define v where "v = (if scheme p \<noteq> [] then scheme p @ '':'' else []) @ rest"
  have v: "urlunsplit (p\<lparr>query := Q\<rparr>) = v"
    by (simp add: urlunsplit_form [OF Q(1)] v_def rest_def tail_def fr_def)
  from wf have a: "scheme p \<noteq> [] \<Longrightarrow> is_ascii (hd (scheme p)) \<and> ascii_alpha (hd (scheme p))
         \<and> list_all scheme_char (scheme p) \<and> py_lower (scheme p) = scheme p"
    and b: "\<forall>c\<in>set (scheme p @ netloc p @ path p @ fragment p). \<not> unsafe_url_byte c"
    and c: "\<forall>c\<in>set (netloc p). \<not> netloc_delim c"
    and d: "check_brackets (netloc p) = Inr ()" "checknetloc (netloc p) = Inr ()"
    and e: "CHR ''?'' \<notin> set (path p)" "CHR ''#'' \<notin> set (path p)"
    and f: "path p \<noteq> [] \<Longrightarrow> scheme p = [] \<Longrightarrow> \<not> c0_control_or_space (hd (path p))"
    and g: "scheme p = [] \<Longrightarrow> split_scheme (path p) = ([], path p)"
    by (auto simp: wf_parts_def)
  have Qc: "\<forall>c\<in>set Q. \<not> unsafe_url_byte c \<and> c \<noteq> CHR ''#'' \<and> c \<noteq> CHR ''?''"
    using Q(2) sep_char_props by (auto simp: list_all_iff)
  have wp: "set (written_path p) \<subseteq> insert CHR ''/'' (set (path p))"
    by (auto simp: written_path_def)
  have e': "CHR ''?'' \<notin> set (written_path p)" "CHR ''#'' \<notin> set (written_path p)"
    using e wp by auto
  have lit: "\<not> unsafe_url_byte CHR ''/''" "\<not> unsafe_url_byte CHR ''?''" "\<not> unsafe_url_byte CHR ''#''"
    "\<not> unsafe_url_byte CHR '':''"
    by (simp_all add: unsafe_url_byte_def code_lits)
  have safe: "\<forall>c\<in>set v. \<not> unsafe_url_byte c"
    using b Qc wp lit by (auto simp: v_def rest_def tail_def fr_def)
  have hdv: "\<not> c0_control_or_space (hd v)"
  proof (cases "scheme p = []")
    case False
    with a have "\<not> c0_control_or_space (hd (scheme p))"
      by (auto simp: ascii_alpha_def c0_control_or_space_def)
    with False show ?thesis by (simp add: v_def)
  next
    case sch: True
    show ?thesis
    proof (cases "needs_netloc p")
      case True
      with sch show ?thesis by (simp add: v_def rest_def c0_control_or_space_def code_lits)
    next
      case False
      then have w: "written_path p = path p" by (simp add: written_path_def)
      show ?thesis
        using sch False f w
        by (cases "path p = []") (simp_all add: v_def rest_def tail_def c0_control_or_space_def code_lits)
    qed
  qed
  have vne: "v \<noteq> []" by (simp add: v_def rest_def tail_def)
  have s1: "filter (\<lambda>c. \<not> unsafe_url_byte c) (dropWhile c0_control_or_space v) = v"
  proof -
    from vne hdv have "dropWhile c0_control_or_space v = v" by (cases v) auto
    with safe show ?thesis by simp
  qed
  have s2: "split_scheme v = (scheme p, rest)"
  proof (cases "scheme p = []")
    case False
    from a [OF False] have nc: "CHR '':'' \<notin> set (scheme p)"
      using scheme_char_props by (auto simp: list_all_iff)
    have "before CHR '':'' v = scheme p" "after CHR '':'' v = rest" "CHR '':'' \<in> set v" "hd v = hd (scheme p)"
      using False nc by (simp_all add: v_def before_append after_append)
    with a [OF False] False show ?thesis by (simp add: split_scheme_def Let_def)
  next
    case sch: True
    then have vr: "v = rest" by (simp add: v_def)
    show ?thesis
    proof (cases "needs_netloc p")
      case True
      then have "hd rest = CHR ''/''" by (simp add: rest_def)
      then have "\<not> ascii_alpha (hd rest)" by (simp add: ascii_alpha_def code_lits)
      with sch vr show ?thesis by (simp add: split_scheme_def Let_def)
    next
      case False
      then have w: "written_path p = path p" by (simp add: written_path_def)
      from False w have "rest = path p @ CHR ''?'' # (Q @ fr)" by (simp add: rest_def tail_def)
      with split_scheme_extend [OF g [OF sch], of "Q @ fr"] sch vr show ?thesis by simp
    qed
  qed
  have tl_delim: "netloc_delim (hd tail)" if "needs_netloc p"
    using written_path_slash [OF that]
    by (cases "written_path p") (auto simp: tail_def netloc_delim_def)
  have tne: "tail \<noteq> []" by (simp add: tail_def)
  have s3: "starts_with rest ''//'' \<Longrightarrow> splitnetloc rest = (netloc p, tail) \<and> check_brackets (netloc p) = Inr ()"
  proof -
    assume sw: "starts_with rest ''//''"
    have nn: "needs_netloc p"
    proof (rule ccontr)
      assume n: "\<not> needs_netloc p"
      then have "\<not> starts_with (path p) ''//''" by (simp add: needs_netloc_def)
      then have "\<not> starts_with (path p @ CHR ''?'' # (Q @ fr)) ''//''"
        by (rule starts_with_slashes_append) simp
      with n sw show False by (simp add: rest_def tail_def written_path_def)
    qed
    then have r: "drop 2 rest = netloc p @ tail" by (simp add: rest_def)
    have "takeWhile (\<lambda>c. \<not> netloc_delim c) (netloc p @ tail) = netloc p"
      "dropWhile (\<lambda>c. \<not> netloc_delim c) (netloc p @ tail) = tail"
      using take_drop_while_append [of "netloc p" "\<lambda>c. \<not> netloc_delim c" tail] c tl_delim [OF nn]
      by simp_all
    with d show ?thesis by (simp add: splitnetloc_def r)
  qed
  have s4: "\<not> starts_with rest ''//'' \<Longrightarrow> netloc p = [] \<and> tail = rest"
  proof -
    assume n: "\<not> starts_with rest ''//''"
    then have "\<not> needs_netloc p" by (auto simp: rest_def)
    then show ?thesis by (simp add: rest_def needs_netloc_def)
  qed
  have pq: "CHR ''#'' \<notin> set (written_path p @ CHR ''?'' # Q)"
    using e' Qc by auto
  have s5: "CHR ''#'' \<in> set tail \<Longrightarrow> before CHR ''#'' tail = written_path p @ CHR ''?'' # Q
      \<and> after CHR ''#'' tail = fragment p"
  proof -
    assume "CHR ''#'' \<in> set tail"
    with pq have fne: "fragment p \<noteq> []" by (auto simp: tail_def fr_def split: if_splits)
    then have t: "tail = (written_path p @ CHR ''?'' # Q) @ CHR ''#'' # fragment p"
      by (simp add: tail_def fr_def)
    show ?thesis unfolding t
      using before_append [OF pq, of "fragment p"] after_append [OF pq, of "fragment p"] by blast
  qed
  have s6: "CHR ''#'' \<notin> set tail \<Longrightarrow> written_path p @ CHR ''?'' # Q = tail \<and> fragment p = []"
    by (auto simp: tail_def fr_def split: if_splits)
  have s7: "before CHR ''?'' (written_path p @ CHR ''?'' # Q) = written_path p
      \<and> after CHR ''?'' (written_path p @ CHR ''?'' # Q) = Q"
    using e'(1) by (simp add: before_append after_append)
  have "urlsplit v = Inr \<lparr>scheme = scheme p, netloc = netloc p, path = written_path p, query = Q,
      fragment = fragment p\<rparr>"
    by (rule urlsplit_eval [OF s1 s2 s3 s4 d(2) s5 s6]) (use s7 in simp_all)
  then show ?thesis by (simp add: v)
qed

lemma normalize_search_url_Inr:
  assumes "normalize_search_url u = Inr out"
  obtains parts pairs new_query where
    "urlsplit u = Inr parts" "parse_qsl True (query parts) = Inr pairs"
    "urlencode (normalized_query pairs) = Inr new_query"
    "out = urlunsplit (parts\<lparr>query := new_query\<rparr>)"
  using assms unfolding normalize_search_url_unfold
  by (auto split: sum.splits)

lemma urlunsplit_cong:
  "scheme a = scheme b \<Longrightarrow> netloc a = netloc b \<Longrightarrow> path a = path b \<Longrightarrow> query a = query b
     \<Longrightarrow> fragment a = fragment b \<Longrightarrow> urlunsplit a = urlunsplit b"
  by (simp add: urlunsplit_def)

lemma urlunsplit_written_path:
  assumes "Q \<noteq> []" "scheme a = scheme p" "netloc a = netloc p" "path a = written_path p"
    "query a = Q" "fragment a = fragment p"
  shows "urlunsplit a = urlunsplit (p\<lparr>query := Q\<rparr>)"
proof -
  have "urlunsplit a = urlunsplit ((p\<lparr>path := written_path p\<rparr>)\<lparr>query := Q\<rparr>)"
    by (rule urlunsplit_cong) (simp_all add: assms)
  also have "\<dots> = urlunsplit (p\<lparr>query := Q\<rparr>)"
    unfolding urlunsplit_form [OF assms(1)] by (simp add: written_path_fix)
  finally show ?thesis .
qed

lemma normalize_search_url_reparse:
  assumes "urlsplit u = Inr parts" "parse_qsl True (query parts) = Inr pairs"
    "urlencode (normalized_query pairs) = Inr new_query"
  shows "urlsplit (urlunsplit (parts\<lparr>query := new_query\<rparr>))
           = Inr (parts\<lparr>query := new_query, path := written_path parts\<rparr>)"
    and "parse_qsl True new_query = Inr (normalized_query pairs)"
    and "new_query \<noteq> []"
proof -
  note q = urlencode_parse [OF assms(3) normalized_query_nonempty]
  show "parse_qsl True new_query = Inr (normalized_query pairs)" by (rule q(1))
  show "new_query \<noteq> []" by (rule q(2))
  show "urlsplit (urlunsplit (parts\<lparr>query := new_query\<rparr>))
           = Inr (parts\<lparr>query := new_query, path := written_path parts\<rparr>)"
    by (rule urlsplit_urlunsplit [OF urlsplit_wf [OF assms(1)] q(2) q(3)])
qed






section \<open>The records of a page\<close>

lemma extract_title_valid: "extract_title reads = ''N/A'' \<or> valid_title (extract_title reads)"
  by (induction reads rule: extract_title.induct) (auto simp: valid_title_def Let_def)

lemma wait_for_url_job_change_id:
  "wait_for_url_job_change v prev polls final = Some (Inr (u, jid))
     \<Longrightarrow> extract_job_id_from_url u = Some jid"
  by (induction polls) (auto split: sum.splits option.splits if_splits)

lemma extract_cards_appends:
  "extract_cards v c prev i acts s count = Some (s', r) \<Longrightarrow>
     \<exists>new. jobs s' = jobs s @ new \<and> (\<forall>j\<in>set new. appended_by v c j)
          \<and> (\<forall>n. r = Inr n \<longrightarrow> n = count + length new)"
proof (induction acts arbitrary: prev i s count)
  case Nil
  then show ?case by auto
next
  case (Cons a acts)
  show ?case
  proof (cases "act_cards a")
    case (Inl e)
    with Cons.prems Cons.IH show ?thesis by (auto split: if_splits)
  next
    case (Inr n)
    show ?thesis
    proof (cases "i \<ge> n \<or> \<not> act_clicked a")
      case True
      with Inr Cons.prems Cons.IH show ?thesis by (auto split: if_splits)
    next
      case False
      then have c: "\<not> i \<ge> n" "act_clicked a" by auto
      show ?thesis
      proof (cases "wait_for_url_job_change v prev (act_polls a) (act_final a)")
        case None
        with Inr c Cons.prems show ?thesis by simp
      next
        case (Some w)
        show ?thesis
        proof (cases w)
          case (Inl e)
          with Some Inr c Cons.prems Cons.IH show ?thesis by (auto split: if_splits)
        next
          case w: (Inr p)
          obtain job_url jid where p: "p = (job_url, jid)" by (cases p)
          from Some w p have id: "extract_job_id_from_url job_url = Some jid"
            by (auto dest: wait_for_url_job_change_id)
          show ?thesis
          proof (cases "\<not> act_details a \<or> extract_title (act_titles a) = ''N/A''")
            case True
            with Some w p Inr c Cons.prems Cons.IH show ?thesis by (auto split: if_splits)
          next
            case False
            define n' where "n' = company_counts s c + 1"
            define jd where "jd = \<lparr>title = extract_title (act_titles a), company = c,
                                      location = act_location a, salary_range = act_salary a,
                                      posted_date = act_posted a, description = act_description a,
                                      url = url_for_json v job_url jid, job_id = jid,
                                      company_job_count = n', scraped_at = act_now a\<rparr>"
            define s1 where "s1 = s\<lparr>jobs := jobs s @ [jd], company_counts := (company_counts s)(c := n')\<rparr>"
            from False Some w p Inr c Cons.prems
            have "extract_cards v c jid (i + 1) acts s1 (count + 1) = Some (s', r)"
              by (simp add: Let_def s1_def jd_def n'_def)
            from Cons.IH [OF this] obtain new where
              new: "jobs s' = jobs s1 @ new" "\<forall>j\<in>set new. appended_by v c j"
              "\<forall>n. r = Inr n \<longrightarrow> n = count + 1 + length new"
              by auto
            have "appended_by v c jd"
              using False extract_title_valid [of "act_titles a"] id
              by (auto simp: appended_by_def jd_def)
            with new have "jobs s' = jobs s @ (jd # new) \<and> (\<forall>j\<in>set (jd # new). appended_by v c j)
                \<and> (\<forall>n. r = Inr n \<longrightarrow> n = count + length (jd # new))"
              by (simp add: s1_def)
            then show ?thesis by blast
          qed
        qed
      qed
    qed
  qed
qed

lemma extract_jobs_on_page_appends:
  assumes "extract_jobs_on_page v c ex s = Some (s', r)"
  shows "\<exists>new. jobs s' = jobs s @ new \<and> (\<forall>j\<in>set new. appended_by v c j)
          \<and> (\<forall>n. r = Inr n \<longrightarrow> n = length new)"
proof (cases "\<exists>n u prev. ex_cards ex = Inr n \<and> n \<noteq> 0 \<and> ex_url ex = Inr u
    \<and> extract_job_id_from_url u = Some prev")
  case True
  then obtain n u prev where "ex_cards ex = Inr n" "n \<noteq> 0" "ex_url ex = Inr u"
    "extract_job_id_from_url u = Some prev" by blast
  with assms have "extract_cards v c prev 0
      (take (case v of Large \<Rightarrow> min n PAGE_SIZE | Small \<Rightarrow> n) (ex_acts ex)) s 0 = Some (s', r)"
    by (simp add: extract_jobs_on_page_def Let_def)
  from extract_cards_appends [OF this] show ?thesis by simp
next
  case False
  with assms have "s' = s" "\<forall>n. r = Inr n \<longrightarrow> n = 0"
    by (auto simp: extract_jobs_on_page_def Let_def split: sum.splits if_splits option.splits)
  then show ?thesis by simp
qed

lemma job_permalink_nonempty: "job_permalink jid \<noteq> []"
  by (simp add: job_permalink_def)

text \<open>
  Claim C2, as the code has it.  Every record the extraction loop of a page
  appends has a title that \<^verbatim>\<open>_extract_title\<close> accepted: not empty, not the
  placeholder \<^verbatim>\<open>N/A\<close>, more than 3 and fewer than 200 characters, and not the word
  \<^verbatim>\<open>jobs\<close>; a card without such a title is passed over, and the count returned
  is the number of records appended.  The job id is not checked: a record whose
  id could not be read is appended all the same, with \<^verbatim>\<open>job_id\<close> \<^verbatim>\<open>N/A\<close> and then the
  \<^verbatim>\<open>url\<close> \<^verbatim>\<open>N/A\<close>.
\<close>

theorem extracted_records_have_titles:
  "extract_jobs_on_page v company_name ex s = Some (s', r) \<Longrightarrow>
     \<exists>new. jobs s' = jobs s @ new
       \<and> (\<forall>n. r = Inr n \<longrightarrow> n = length new)
       \<and> (\<forall>j\<in>set new. title j \<noteq> [] \<and> title j \<noteq> ''N/A'' \<and> 3 < length (title j)
              \<and> length (title j) < 200 \<and> py_lower (title j) \<noteq> ''jobs''
              \<and> (job_id j = ''N/A'' \<longrightarrow> url j = ''N/A''))"
proof -
  assume "extract_jobs_on_page v company_name ex s = Some (s', r)"
  from extract_jobs_on_page_appends [OF this] obtain new where
    new: "jobs s' = jobs s @ new" "\<forall>j\<in>set new. appended_by v company_name j"
    "\<forall>n. r = Inr n \<longrightarrow> n = length new" by blast
  have "title j \<noteq> [] \<and> title j \<noteq> ''N/A'' \<and> 3 < length (title j)
              \<and> length (title j) < 200 \<and> py_lower (title j) \<noteq> ''jobs''
              \<and> (job_id j = ''N/A'' \<longrightarrow> url j = ''N/A'')" if "j \<in> set new" for j
    using new(2) that
    by (cases v) (auto simp: appended_by_def valid_title_def url_for_json_def job_permalink_def)
  with new(1,3) show ?thesis by blast
qed

text \<open>
  Claim C7, as the code has it.  In Linkedin\_Large.py the \<^verbatim>\<open>url\<close> of every record
  appended is \<^verbatim>\<open>_job_permalink(job_id)\<close>, a function of the job id alone, so two
  records of a page with the same job id carry the same \<^verbatim>\<open>url\<close>.  In
  Linkedin\_Small.py the \<^verbatim>\<open>url\<close> is \<^verbatim>\<open>N/A\<close> when the job id is, and otherwise the URL
  the browser showed after the click, from which the job id was read.
\<close>

theorem url_field_of_extracted_records:
  "extract_jobs_on_page v company_name ex s = Some (s', r) \<Longrightarrow>
     \<exists>new. jobs s' = jobs s @ new
       \<and> (v = Large \<longrightarrow> (\<forall>j\<in>set new. url j = job_permalink (job_id j))
                       \<and> (\<forall>j\<in>set new. \<forall>j'\<in>set new. job_id j = job_id j' \<longrightarrow> url j = url j'))
       \<and> (v = Small \<longrightarrow> (\<forall>j\<in>set new. if job_id j = ''N/A'' then url j = ''N/A''
                                         else extract_job_id_from_url (url j) = Some (job_id j)))"
proof -
  assume "extract_jobs_on_page v company_name ex s = Some (s', r)"
  from extract_jobs_on_page_appends [OF this] obtain new where
    new: "jobs s' = jobs s @ new" "\<forall>j\<in>set new. appended_by v company_name j" by blast
  have L: "url j = job_permalink (job_id j)" if "j \<in> set new" "v = Large" for j
    using new(2) that by (auto simp: appended_by_def url_for_json_def job_permalink_nonempty)
  have S: "if job_id j = ''N/A'' then url j = ''N/A''
           else extract_job_id_from_url (url j) = Some (job_id j)" if "j \<in> set new" "v = Small" for j
    using new(2) that by (auto simp: appended_by_def url_for_json_def)
  from L have "\<forall>j\<in>set new. \<forall>j'\<in>set new. job_id j = job_id j' \<longrightarrow> url j = url j'" if "v = Large"
    using that by simp
  with L S new(1) show ?thesis by blast
qed

lemma extracted_some:
  "x \<noteq> None \<Longrightarrow> x = Some (fst (the x), snd (the x))"
  by auto

theorem extracted_records_have_titles_witness:
  "map title (jobs (fst (the (extract_jobs_on_page Large ''TD'' (page_of ''0'' [click_job_42 ''0'', click_without_id]) new_scraper))))
     = [''Underwriter'', ''Mortgage Specialist'']
   \<and> (\<exists>new. jobs (fst (the (extract_jobs_on_page Large ''TD'' (page_of ''0'' [click_job_42 ''0'', click_without_id]) new_scraper)))
          = jobs new_scraper @ new
       \<and> (\<forall>n. snd (the (extract_jobs_on_page Large ''TD'' (page_of ''0'' [click_job_42 ''0'', click_without_id]) new_scraper)) = Inr n
              \<longrightarrow> n = length new)
       \<and> (\<forall>j\<in>set new. title j \<noteq> [] \<and> title j \<noteq> ''N/A'' \<and> 3 < length (title j)
              \<and> length (title j) < 200 \<and> py_lower (title j) \<noteq> ''jobs''
              \<and> (job_id j = ''N/A'' \<longrightarrow> url j = ''N/A'')))"
proof -
  let ?x = "extract_jobs_on_page Large ''TD'' (page_of ''0'' [click_job_42 ''0'', click_without_id]) new_scraper"
  have "?x \<noteq> None" by code_simp
  then have "?x = Some (fst (the ?x), snd (the ?x))" by (rule extracted_some)
  from extracted_records_have_titles [OF this]
  have "\<exists>new. jobs (fst (the ?x)) = jobs new_scraper @ new
       \<and> (\<forall>n. snd (the ?x) = Inr n \<longrightarrow> n = length new)
       \<and> (\<forall>j\<in>set new. title j \<noteq> [] \<and> title j \<noteq> ''N/A'' \<and> 3 < length (title j)
              \<and> length (title j) < 200 \<and> py_lower (title j) \<noteq> ''jobs''
              \<and> (job_id j = ''N/A'' \<longrightarrow> url j = ''N/A''))" .
  moreover have "map title (jobs (fst (the ?x))) = [''Underwriter'', ''Mortgage Specialist'']"
    by code_simp
  ultimately show ?thesis by blast
qed

text \<open>
  Claim C2 as stated fails: on this page the browser never shows a job id for the
  first card, and a blank one for the second; both records are appended, the
  first with the \<^verbatim>\<open>job_id\<close> \<^verbatim>\<open>N/A\<close>, the second with the empty \<^verbatim>\<open>job_id\<close>.
\<close>

theorem record_without_id_counterexample:
  "map_option (\<lambda>(s, r). (map (\<lambda>j. (title j, job_id j, url j)) (jobs s), r))
     (extract_jobs_on_page Large ''TD'' (page_of ''0'' [click_without_id, click_blank_id]) new_scraper)
   = Some ([(''Mortgage Specialist'', ''N/A'', ''N/A''), (''Analyst'', [], ''N/A'')], Inr 2)"
  by code_simp

theorem url_field_of_extracted_records_witness:
  "map url (jobs (fst (the (extract_jobs_on_page Large ''TD'' (page_of ''0'' [click_job_42 ''0'', click_without_id]) new_scraper))))
     = [''https://www.linkedin.com/jobs/view/42/'', ''N/A'']
   \<and> (\<exists>new. jobs (fst (the (extract_jobs_on_page Large ''TD'' (page_of ''0'' [click_job_42 ''0'', click_without_id]) new_scraper)))
          = jobs new_scraper @ new
       \<and> (\<forall>j\<in>set new. url j = job_permalink (job_id j)))"
proof -
  let ?x = "extract_jobs_on_page Large ''TD'' (page_of ''0'' [click_job_42 ''0'', click_without_id]) new_scraper"
  have "?x \<noteq> None" by code_simp
  then have "?x = Some (fst (the ?x), snd (the ?x))" by (rule extracted_some)
  from url_field_of_extracted_records [OF this]
  have "\<exists>new. jobs (fst (the ?x)) = jobs new_scraper @ new
       \<and> (\<forall>j\<in>set new. url j = job_permalink (job_id j))" by blast
  moreover have "map url (jobs (fst (the ?x))) = [''https://www.linkedin.com/jobs/view/42/'', ''N/A'']"
    by code_simp
  ultimately show ?thesis by blast
qed

text \<open>
  Claim C7 as stated fails for Linkedin\_Small.py: the job 42 is shown on the page
  of offset 0 and again on the page of offset 25, and its two records carry the
  two URLs of the browser, which differ in \<^verbatim>\<open>start\<close>.
\<close>

theorem url_field_small_counterexample:
  "map_option (\<lambda>(s, r). map (\<lambda>j. (job_id j, url j)) (jobs s))
     (case extract_jobs_on_page Small ''Vancity'' (page_of ''0'' [click_job_42 ''0'']) new_scraper of
        None \<Rightarrow> None
      | Some (s, r) \<Rightarrow> extract_jobs_on_page Small ''Vancity'' (page_of ''25'' [click_job_42 ''25'']) s)
   = Some [(''42'', ''https://www.linkedin.com/jobs/search/?currentJobId=42&f_C=2775&start=0''),
           (''42'', ''https://www.linkedin.com/jobs/search/?currentJobId=42&f_C=2775&start=25'')]"
  by code_simp

section \<open>The offsets of the pages requested\<close>

lemma str_nat_ascii: "list_all is_ascii (str_nat n)"
proof (induction n rule: str_nat.induct)
  case (1 n)
  have d: "is_ascii (digit_char k)" if "k < 10" for k
    using that by (simp add: is_ascii_def digit_char_def code_char_of)
  show ?case
  proof (cases "n < 10")
    case True
    then show ?thesis by (subst str_nat.simps) (simp add: d)
  next
    case False
    with 1 have "list_all is_ascii (str_nat (n div 10))" by simp
    moreover have "is_ascii (digit_char (n mod 10))" by (rule d) simp
    ultimately show ?thesis using False by (subst str_nat.simps) simp
  qed
qed

lemma str_nat_0: "str_nat 0 = ''0''"
  by code_simp

lemma start_ascii: "list_all is_ascii ''start''"
  by code_simp

lemma encode_fields_ascii:
  "(\<exists>l. encode_fields q = Inr l) = (\<forall>(k, v)\<in>set q. list_all is_ascii k \<and> list_all is_ascii v)"
proof (induction q)
  case Nil
  then show ?case by simp
next
  case (Cons kv q)
  obtain k v where kv: "kv = (k, v)" by (cases kv)
  have qp: "(\<exists>r. quote_plus s = Inr r) = list_all is_ascii s" for s
    using quote_plus_eq(2) [of s] quote_plus_total [of s] by auto
  show ?case
    using Cons.IH qp [of k] qp [of v]
    by (auto simp: kv split: sum.splits)
qed

lemma urlencode_ascii:
  "(\<exists>Q. urlencode q = Inr Q) = (\<forall>(k, v)\<in>set q. list_all is_ascii k \<and> list_all is_ascii v)"
  using encode_fields_ascii [of q] by (auto simp: urlencode_def split: sum.splits)

lemma set_dict_set: "set (dict_set d k v) \<subseteq> insert (k, v) (set d)"
  by (induction d k v rule: dict_set.induct) auto

lemma set_query_param_unfold:
  "set_query_param u key val =
     (case urlsplit u of
        Inl e \<Rightarrow> Inl e
      | Inr parts \<Rightarrow>
         (case parse_qsl True (query parts) of
            Inl e \<Rightarrow> Inl e
          | Inr pairs \<Rightarrow>
             (case urlencode (dict_set (dict pairs) key (str_nat val)) of
                Inl e \<Rightarrow> Inl e
              | Inr new_query \<Rightarrow> Inr (urlunsplit (parts\<lparr>query := new_query\<rparr>)))))"
  by (simp add: set_query_param_def Let_def split: sum.splits)

text \<open>A normalised URL, taken apart.\<close>

lemma normalized_parts:
  assumes "normalize_search_url u = Inr b"
  obtains parts q Q where
    "urlsplit b = Inr parts" "wf_parts parts" "parse_qsl True (query parts) = Inr q"
    "distinct (map fst q)" "map_of q ''start'' = Some ''0''"
    "urlencode q = Inr Q" "b = urlunsplit (parts\<lparr>query := Q\<rparr>)" "dict_set q ''start'' ''0'' = q"
proof -
  from assms obtain parts0 pairs Q where
    p: "urlsplit u = Inr parts0" "parse_qsl True (query parts0) = Inr pairs"
    "urlencode (normalized_query pairs) = Inr Q"
    and b: "b = urlunsplit (parts0\<lparr>query := Q\<rparr>)"
    by (rule normalize_search_url_Inr)
  note r = normalize_search_url_reparse [OF p]
  let ?parts = "parts0\<lparr>query := Q, path := written_path parts0\<rparr>"
  have s: "urlsplit b = Inr ?parts" by (simp add: b r(1))
  have 1: "wf_parts ?parts" by (rule urlsplit_wf [OF s])
  have 2: "parse_qsl True (query ?parts) = Inr (normalized_query pairs)" by (simp add: r(2))
  have 3: "map_of (normalized_query pairs) ''start'' = Some ''0''"
    by (simp add: map_of_normalized_query)
  have 4: "b = urlunsplit (?parts\<lparr>query := Q\<rparr>)"
    unfolding b by (rule urlunsplit_written_path [OF r(3), symmetric]) simp_all
  have 5: "dict_set (normalized_query pairs) ''start'' ''0'' = normalized_query pairs"
    by (simp add: normalized_query_def dict_set_idem)
  from s 1 2 normalized_query_distinct 3 p(3) 4 5 show ?thesis by (rule that)
qed

lemma set_query_param_start_0:
  assumes "normalize_search_url u = Inr b"
  shows "set_query_param b ''start'' 0 = Inr b"
proof -
  from assms obtain parts q Q where
    n: "urlsplit b = Inr parts" "parse_qsl True (query parts) = Inr q"
    "distinct (map fst q)" "urlencode q = Inr Q" "b = urlunsplit (parts\<lparr>query := Q\<rparr>)"
    "dict_set q ''start'' ''0'' = q"
    by (rule normalized_parts)
  have "set_query_param b ''start'' 0 = Inr (urlunsplit (parts\<lparr>query := Q\<rparr>))"
    unfolding set_query_param_unfold
    by (simp add: n(1,2) dict_id [OF n(3)] str_nat_0 n(6) n(4))
  then show ?thesis by (simp only: n(5) [symmetric])
qed

lemma set_query_param_start:
  assumes "normalize_search_url u = Inr b"
  shows "\<exists>next_url. set_query_param b ''start'' n = Inr next_url
           \<and> start_of next_url = Some (str_nat n)"
proof -
  from assms obtain parts q Q where
    n: "urlsplit b = Inr parts" "wf_parts parts" "parse_qsl True (query parts) = Inr q"
    "distinct (map fst q)" "urlencode q = Inr Q"
    by (rule normalized_parts)
  let ?q = "dict_set q ''start'' (str_nat n)"
  have "\<forall>(k, v)\<in>set q. list_all is_ascii k \<and> list_all is_ascii v"
    using n(5) urlencode_ascii [of q] by blast
  moreover have "list_all is_ascii ''start'' \<and> list_all is_ascii (str_nat n)"
    using start_ascii str_nat_ascii by blast
  ultimately have "\<forall>(k, v)\<in>set ?q. list_all is_ascii k \<and> list_all is_ascii v"
    using set_dict_set [of q "''start''" "str_nat n"] by blast
  then obtain Q' where Q': "urlencode ?q = Inr Q'"
    using urlencode_ascii [of ?q] by blast
  note e = urlencode_parse [OF Q' dict_set_nonempty]
  have s: "set_query_param b ''start'' n = Inr (urlunsplit (parts\<lparr>query := Q'\<rparr>))"
    unfolding set_query_param_unfold by (simp add: n(1,3) dict_id [OF n(4)] Q')
  have u: "urlsplit (urlunsplit (parts\<lparr>query := Q'\<rparr>)) = Inr (parts\<lparr>query := Q', path := written_path parts\<rparr>)"
    by (rule urlsplit_urlunsplit [OF n(2) e(2) e(3)])
  have "start_of (urlunsplit (parts\<lparr>query := Q'\<rparr>)) = Some (str_nat n)"
    unfolding start_of_def u
    by (simp add: e(1) dict_id [OF dict_set_distinct [OF n(4)]] map_of_dict_set)
  with s show ?thesis by blast
qed

lemma offsets_Suc: "offsets (Suc k) = offsets k @ [Some (str_nat (k * PAGE_SIZE))]"
  by (simp add: offsets_def)

lemma start_of_base:
  assumes "normalize_search_url u = Inr b"
  shows "start_of b = Some (str_nat 0)"
  using set_query_param_start [OF assms, of 0] set_query_param_start_0 [OF assms] by simp

lemma driver_failure_requested:
  "driver_failure p e c sig = Stop c' x \<Longrightarrow> requested c' = requested c"
  "driver_failure p e c sig = Next c' sig' \<Longrightarrow> requested c' = requested c"
  by (auto simp: driver_failure_def split: if_splits sum.splits)

lemma process_page_requested:
  "process_page company_name prev_sig p c = Stop c' x \<Longrightarrow> requested c' = requested c"
  "process_page company_name prev_sig p c = Next c' sig' \<Longrightarrow> requested c' = requested c"
  by (auto simp: process_page_def Let_def dest!: driver_failure_requested
      split: if_splits sum.splits bool.splits option.splits prod.splits)

lemma page_step_requested:
  assumes "normalize_search_url u = Inr b"
  shows "page_step company_name b max_pages (Suc pc) prev_sig p c = Next c' sig \<Longrightarrow>
           (if pc = 0 then requested c' = requested c
            else \<exists>next_url. requested c' = requested c @ [next_url]
                   \<and> start_of next_url = Some (str_nat (pc * PAGE_SIZE)))"
    and "page_step company_name b max_pages (Suc pc) prev_sig p c = Stop c' e \<Longrightarrow>
           requested c' = requested c
           \<or> (pc \<noteq> 0 \<and> (\<exists>next_url. requested c' = requested c @ [next_url]
                   \<and> start_of next_url = Some (str_nat (pc * PAGE_SIZE))))"
proof -
  from set_query_param_start [OF assms, of "pc * PAGE_SIZE"] obtain next_url where
    n: "set_query_param b ''start'' (pc * PAGE_SIZE) = Inr next_url"
       "start_of next_url = Some (str_nat (pc * PAGE_SIZE))"
    by blast
  show "page_step company_name b max_pages (Suc pc) prev_sig p c = Next c' sig \<Longrightarrow>
           (if pc = 0 then requested c' = requested c
            else \<exists>next_url. requested c' = requested c @ [next_url]
                   \<and> start_of next_url = Some (str_nat (pc * PAGE_SIZE)))"
    by (auto simp: page_step_def Let_def n dest!: process_page_requested
        split: if_splits sum.splits bool.splits)
  show "page_step company_name b max_pages (Suc pc) prev_sig p c = Stop c' e \<Longrightarrow>
           requested c' = requested c
           \<or> (pc \<noteq> 0 \<and> (\<exists>next_url. requested c' = requested c @ [next_url]
                   \<and> start_of next_url = Some (str_nat (pc * PAGE_SIZE))))"
    by (auto simp: page_step_def Let_def n dest!: process_page_requested
        split: if_splits sum.splits bool.splits)
qed

lemma scrape_pages_requested:
  assumes b: "normalize_search_url u = Inr b"
  shows "scrape_pages company_name b max_pages pc prev_sig pages c = Some (c', e)
         \<Longrightarrow> requested c = old @ us \<Longrightarrow> map start_of us = offsets (length us)
         \<Longrightarrow> length us = max 1 pc
         \<Longrightarrow> \<exists>us'. requested c' = old @ us' \<and> map start_of us' = offsets (length us')"
proof (induction pages arbitrary: pc prev_sig c us)
  case Nil
  then show ?case by auto
next
  case (Cons p pages)
  show ?case
  proof (cases "page_step company_name b max_pages (Suc pc) prev_sig p c")
    case (Stop c1 e1)
    with Cons.prems(1) have c1: "c1 = c'" by simp
    from page_step_requested(2) [OF b Stop] Cons.prems(2-4) show ?thesis
      unfolding c1 by (auto simp: offsets_Suc max_def split: if_splits)
  next
    case (Next c1 sig)
    with Cons.prems(1) have r: "scrape_pages company_name b max_pages (Suc pc) sig pages c1 = Some (c', e)"
      by simp
    show ?thesis
    proof (cases "pc = 0")
      case True
      with page_step_requested(1) [OF b Next] have "requested c1 = old @ us"
        using Cons.prems(2) by simp
      from Cons.IH [OF r this Cons.prems(3)] Cons.prems(4) True show ?thesis by simp
    next
      case False
      with page_step_requested(1) [OF b Next] obtain next_url where
        n: "requested c1 = requested c @ [next_url]"
           "start_of next_url = Some (str_nat (pc * PAGE_SIZE))"
        by auto
      have 1: "requested c1 = old @ (us @ [next_url])" using n(1) Cons.prems(2) by simp
      have 2: "map start_of (us @ [next_url]) = offsets (length (us @ [next_url]))"
        using Cons.prems(3,4) False n(2) by (simp add: offsets_Suc max_def)
      have 3: "length (us @ [next_url]) = max 1 (Suc pc)"
        using Cons.prems(4) False by simp
      from Cons.IH [OF r 1 2 3] show ?thesis .
    qed
  next
    case Outside
    with Cons.prems(1) show ?thesis by simp
  qed
qed

text \<open>The pages a crawl of one search asks for, in both scripts: the offsets are
  0, 25, 50 and so on, one more page at each request, whatever the browser does.\<close>

lemma scrape_single_url_requested:
  assumes "scrape_single_url company_name u max_pages pages c = Some (c', e)"
  shows "\<exists>us. requested c' = requested c @ us \<and> map start_of us = offsets (length us)"
proof (cases "normalize_search_url u")
  case (Inl err)
  with assms have "c' = c"
    by (cases err) (simp_all add: scrape_single_url_def)
  then show ?thesis by (simp add: offsets_def)
next
  case (Inr b)
  note z = set_query_param_start_0 [OF Inr]
  show ?thesis
  proof (cases pages)
    case Nil
    with assms Inr z have "c' = c" by (simp add: scrape_single_url_def)
    then show ?thesis by (simp add: offsets_def)
  next
    case (Cons p rest)
    let ?c = "c\<lparr>requested := requested c @ [b]\<rparr>"
    have o: "map start_of [b] = offsets (length [b])"
      by (simp add: offsets_def start_of_base [OF Inr])
    from assms have
      "c' = ?c \<or> scrape_pages company_name b max_pages 0 None pages ?c = Some (c', e)"
      by (auto simp: scrape_single_url_def Inr z Cons Let_def
          split: if_splits sum.splits bool.splits)
    then show ?thesis
    proof
      assume "c' = ?c"
      with o show ?thesis by auto
    next
      assume "scrape_pages company_name b max_pages 0 None pages ?c = Some (c', e)"
      from scrape_pages_requested [OF Inr this, of "requested c" "[b]"] o show ?thesis by simp
    qed
  qed
qed

lemma small_page_step_requested:
  assumes "normalize_search_url u = Inr b"
  shows "small_page_step company_name b max_pages (Suc pc) seen p c = Again c' seen' \<Longrightarrow>
           \<exists>next_url. requested c' = requested c @ [next_url]
                   \<and> start_of next_url = Some (str_nat (Suc pc * PAGE_SIZE))"
    and "small_page_step company_name b max_pages (Suc pc) seen p c = Leave c' e \<Longrightarrow>
           requested c' = requested c
           \<or> (\<exists>next_url. requested c' = requested c @ [next_url]
                   \<and> start_of next_url = Some (str_nat (Suc pc * PAGE_SIZE)))"
proof -
  from set_query_param_start [OF assms, of "Suc pc * 25"] obtain next_url where
    n: "set_query_param b ''start'' (Suc pc * 25) = Inr next_url"
       "start_of next_url = Some (str_nat (Suc pc * 25))"
    by blast
  have n': "set_query_param b ''start'' (25 + pc * 25) = Inr next_url"
    using n(1) by simp
  show "small_page_step company_name b max_pages (Suc pc) seen p c = Again c' seen' \<Longrightarrow>
           \<exists>next_url. requested c' = requested c @ [next_url]
                   \<and> start_of next_url = Some (str_nat (Suc pc * PAGE_SIZE))"
    using n(2)
    by (auto simp: small_page_step_def Let_def n' PAGE_SIZE_def
        split: if_splits sum.splits bool.splits option.splits prod.splits)
  show "small_page_step company_name b max_pages (Suc pc) seen p c = Leave c' e \<Longrightarrow>
           requested c' = requested c
           \<or> (\<exists>next_url. requested c' = requested c @ [next_url]
                   \<and> start_of next_url = Some (str_nat (Suc pc * PAGE_SIZE)))"
    using n(2)
    by (auto simp: small_page_step_def Let_def n' PAGE_SIZE_def
        split: if_splits sum.splits bool.splits option.splits prod.splits)
qed

lemma small_pages_requested:
  assumes b: "normalize_search_url u = Inr b"
  shows "small_pages company_name b max_pages pc seen pages c = Some (c', e)
         \<Longrightarrow> requested c = old @ us \<Longrightarrow> map start_of us = offsets (length us)
         \<Longrightarrow> length us = Suc pc
         \<Longrightarrow> \<exists>us'. requested c' = old @ us' \<and> map start_of us' = offsets (length us')"
proof (induction pages arbitrary: pc seen c us)
  case Nil
  then show ?case by auto
next
  case (Cons p pages)
  show ?case
  proof (cases "small_page_step company_name b max_pages (Suc pc) seen p c")
    case (Leave c1 e1)
    with Cons.prems(1) have c1: "c1 = c'" by simp
    from small_page_step_requested(2) [OF b Leave] Cons.prems(2-4) show ?thesis
      unfolding c1 by (auto simp: offsets_Suc)
  next
    case (Again c1 seen1)
    with Cons.prems(1) have r: "small_pages company_name b max_pages (Suc pc) seen1 pages c1 = Some (c', e)"
      by simp
    from small_page_step_requested(1) [OF b Again] obtain next_url where
      n: "requested c1 = requested c @ [next_url]"
         "start_of next_url = Some (str_nat (Suc pc * PAGE_SIZE))"
      by auto
    have 1: "requested c1 = old @ (us @ [next_url])" using n(1) Cons.prems(2) by simp
    have 2: "map start_of (us @ [next_url]) = offsets (length (us @ [next_url]))"
      using Cons.prems(3,4) n(2) by (simp add: offsets_Suc)
    have 3: "length (us @ [next_url]) = Suc (Suc pc)"
      using Cons.prems(4) by simp
    from Cons.IH [OF r 1 2 3] show ?thesis .
  next
    case Outside_small
    with Cons.prems(1) show ?thesis by simp
  qed
qed

lemma try_block_requested:
  assumes "try_block company_name u max_pages inp c = Some (c', e)"
  shows "\<exists>us. requested c' = requested c @ us \<and> map start_of us = offsets (length us)"
proof (cases "normalize_search_url u")
  case (Inl err)
  with assms have "c' = c"
    by (cases err) (simp_all add: try_block_def)
  then show ?thesis by (simp add: offsets_def)
next
  case (Inr b)
  note z = set_query_param_start_0 [OF Inr]
  let ?c = "c\<lparr>requested := requested c @ [b]\<rparr>"
  have o: "map start_of [b] = offsets (length [b])"
    by (simp add: offsets_def start_of_base [OF Inr])
  from assms have
    "c' = ?c \<or> small_pages company_name b max_pages 0 {} (sc_pages inp) ?c = Some (c', e)"
    by (auto simp: try_block_def Inr z Let_def
        split: if_splits sum.splits bool.splits option.splits)
  then show ?thesis
  proof
    assume "c' = ?c"
    with o show ?thesis by auto
  next
    assume "small_pages company_name b max_pages 0 {} (sc_pages inp) ?c = Some (c', e)"
    from small_pages_requested [OF Inr this, of "requested c" "[b]"] o show ?thesis by simp
  qed
qed

lemma scrape_single_company_requested:
  assumes "scrape_single_company company_name u max_pages inp c = Some (c', e)"
  shows "\<exists>us. requested c' = requested c @ us \<and> map start_of us = offsets (length us)"
proof -
  from assms obtain l where "try_block company_name u max_pages inp c = Some (c', l)"
    by (auto simp: scrape_single_company_def
        split: option.splits prod.splits left.splits if_splits)
  then show ?thesis by (rule try_block_requested)
qed

text \<open>
  Claim C6 fails in Linkedin\_Large.py when a page fails and the driver is
  restarted.  The search below is crawled with \<^verbatim>\<open>max_pages=3\<close>.  The page of offset 0
  is extracted and saved.  On the page of offset 25 the extraction raises an
  exception that \<^verbatim>\<open>_is_driver_dead\<close> recognises; the handler logs
  \<^verbatim>\<open>Recovering and retrying page...\<close>, restarts the driver and continues the loop,
  which counts the next page.  The page of offset 50 is then requested, extracted
  and saved.  The page of offset 25 is never extracted: from one extracted page to
  the next the offset has grown by 50.
\<close>

theorem recovered_page_is_skipped:
  "crawl_trace (scrape_single_url ''TD'' seed_url (Some 3)
      [page_with_job ''42'' ''0'', page_failing read_timed_out ''55'' ''25'',
       page_with_job ''77'' ''50'', page_with_job ''99'' ''75'']
      new_crawl)
   = Some (Returns,
           [base_url_2775, url_25, ''https://www.linkedin.com/jobs/search/?f_C=2775&start=50''],
           [[''42''], [''42'', ''77'']])"
  by code_simp

section \<open>The end of a crawl\<close>

lemma wait_for_results_or_end_marker:
  "found_cards poll = Inr [] \<Longrightarrow> list_ex says_no_results (no_results_texts poll)
     \<Longrightarrow> wait_for_results_or_end (poll # polls) = Inr False"
  by simp










end
